theory Spec2Isabelle
  imports Complex_Main
begin

section \<open>Repository candidates (src/github.js)\<close>

text \<open>
  A repository as the search API returns it, with the two private fields the pipeline
  adds (\<open>_latestRelease\<close>, \<open>_isOSSInsight\<close>; an identifier cannot start with an
  underscore here). Timestamps are the milliseconds that \<open>new Date(s).getTime()\<close>
  yields for a well-formed date string. JavaScript numbers are idealised as reals:
  rounding of IEEE doubles is not part of the model.
\<close>

record release =
  published_at :: "int option"
  rel_created_at :: "int option"

record gh_repo =
  full_name :: string
  gh_name :: string
  gh_description :: "string option"
  stargazers_count :: nat
  forks_count :: nat
  open_issues_count :: "nat option"
  language :: "string option"
  created_at :: int
  pushed_at :: int
  latestRelease :: "release option"
  isOSSInsight :: bool

text \<open>A scored candidate is the repository spread into a new object with \<open>_score\<close>.\<close>

record scored_repo = gh_repo +
  score :: real

record score_options =
  opt_now :: "int option"
  opt_recentRepoNames :: "string set option"

section \<open>Scoring engine: \<open>scoreRepo\<close>\<close>

text \<open>\<open>options.now || Date.now()\<close>: an absent or zero \<open>now\<close> reads the clock.\<close>

definition effective_now :: "score_options \<Rightarrow> int \<Rightarrow> int" where
  "effective_now options clock =
     (case opt_now options of
        None \<Rightarrow> clock
      | Some n \<Rightarrow> if n = 0 then clock else n)"

definition effective_recent :: "score_options \<Rightarrow> string set" where
  "effective_recent options =
     (case opt_recentRepoNames options of None \<Rightarrow> {} | Some s \<Rightarrow> s)"

definition velocityScore :: "'a gh_repo_scheme \<Rightarrow> int \<Rightarrow> real" where
  "velocityScore repo now =
     (let ageMs = real_of_int (now - created_at repo);
          ageDays = max (ageMs / 86400000) 1;
          rawVelocity = real (stargazers_count repo) / ageDays
      in min (ln (1 + rawVelocity) / 5) 1)"

definition recencyScore :: "'a gh_repo_scheme \<Rightarrow> int \<Rightarrow> real" where
  "recencyScore repo now =
     (let pushedMs = real_of_int (now - pushed_at repo)
      in max 0 (1 - pushedMs / (7 * 86400000)))"

text \<open>\<open>published_at || created_at\<close> of the release, when either is present.\<close>

definition relDateStr :: "release \<Rightarrow> int option" where
  "relDateStr rel =
     (case published_at rel of Some d \<Rightarrow> Some d | None \<Rightarrow> rel_created_at rel)"

definition releaseScore :: "'a gh_repo_scheme \<Rightarrow> int \<Rightarrow> real" where
  "releaseScore repo now =
     (case latestRelease repo of
        None \<Rightarrow> 0
      | Some rel \<Rightarrow>
          (case relDateStr rel of
             Some d \<Rightarrow>
               (let relAgeMs = real_of_int (now - d);
                    relAgeDays = relAgeMs / 86400000
                in max 0 (1 - relAgeDays / 30))
           | None \<Rightarrow> 1 / 2))"

definition engagementScore :: "'a gh_repo_scheme \<Rightarrow> real" where
  "engagementScore repo =
     (let stars = real (stargazers_count repo);
          forks = real (forks_count repo);
          issues = real (case open_issues_count repo of None \<Rightarrow> 0 | Some n \<Rightarrow> n)
      in if stars > 0 then min ((forks + issues * (3 / 10)) / stars) 1 else 0)"

definition scoreRepo :: "'a gh_repo_scheme \<Rightarrow> score_options \<Rightarrow> int \<Rightarrow> real" where
  "scoreRepo repo options clock =
     (let now = effective_now options clock;
          recentRepoNames = effective_recent options;
          effectiveVelocity = (if isOSSInsight repo then 0 else velocityScore repo now);
          effectiveRecency = (if isOSSInsight repo then 0 else recencyScore repo now);
          score = effectiveVelocity * (35 / 100) + effectiveRecency * (25 / 100)
                  + releaseScore repo now * (15 / 100) + engagementScore repo * (10 / 100)
      in if full_name repo \<in> recentRepoNames then score - 1 / 2 else score)"

text \<open>A fixture in the style of the unit tests' \<open>baseRepo\<close>.\<close>

definition baseRepo :: gh_repo where
  "baseRepo =
     \<lparr> full_name = ''org/repo'', gh_name = ''repo'', gh_description = Some ''A repo'',
       stargazers_count = 0, forks_count = 20, open_issues_count = Some 10,
       language = Some ''JavaScript'', created_at = 0, pushed_at = 86400000,
       latestRelease = None, isOSSInsight = False \<rparr>"

subsection \<open>Ranges of the four terms\<close>

lemma velocityScore_range: "0 \<le> velocityScore repo now \<and> velocityScore repo now \<le> 1"
proof -
  let ?d = "max (real_of_int (now - created_at repo) / 86400000) 1"
  have "0 \<le> real (stargazers_count repo) / ?d" by simp
  then have "0 \<le> ln (1 + real (stargazers_count repo) / ?d)" by simp
  then show ?thesis by (simp add: velocityScore_def Let_def)
qed

lemma recencyScore_nonneg: "0 \<le> recencyScore repo now"
  by (simp add: recencyScore_def Let_def)

lemma recencyScore_le_1: "pushed_at repo \<le> now \<Longrightarrow> recencyScore repo now \<le> 1"
  by (simp add: recencyScore_def Let_def)

lemma releaseScore_nonneg: "0 \<le> releaseScore repo now"
  by (simp add: releaseScore_def Let_def split: option.splits)

lemma releaseScore_le_1:
  assumes "\<forall>rel d. latestRelease repo = Some rel \<and> relDateStr rel = Some d \<longrightarrow> d \<le> now"
  shows "releaseScore repo now \<le> 1"
  using assms by (auto simp: releaseScore_def Let_def split: option.splits)

lemma engagementScore_range: "0 \<le> engagementScore repo \<and> engagementScore repo \<le> 1"
  by (simp add: engagementScore_def Let_def)

lemma weighted_sum_range:
  fixes v r l e :: real
  assumes "0 \<le> v" "v \<le> 1" "0 \<le> r" "r \<le> 1" "0 \<le> l" "l \<le> 1" "0 \<le> e" "e \<le> 1"
  shows "0 \<le> v * (35 / 100) + r * (25 / 100) + l * (15 / 100) + e * (10 / 100)"
    and "v * (35 / 100) + r * (25 / 100) + l * (15 / 100) + e * (10 / 100) \<le> 85 / 100"
  using assms by simp_all

subsection \<open>Score boundedness\<close>

text \<open>
  The recency and release terms are floored at 0 but have no ceiling: they stay within
  \<open>[0, 1]\<close> only for a push and a release that are not later than \<open>now\<close>.
\<close>

definition timestamps_not_after :: "'a gh_repo_scheme \<Rightarrow> int \<Rightarrow> bool" where
  "timestamps_not_after repo now =
     (pushed_at repo \<le> now \<and>
      (case latestRelease repo of
         None \<Rightarrow> True
       | Some rel \<Rightarrow> (case relDateStr rel of None \<Rightarrow> True | Some d \<Rightarrow> d \<le> now)))"

definition future_push_repo :: gh_repo where
  "future_push_repo = baseRepo \<lparr> pushed_at := 36 * 86400000 \<rparr>"

definition day_one :: score_options where
  "day_one = \<lparr> opt_now = Some 86400000, opt_recentRepoNames = None \<rparr>"

text \<open>
  C8 (as stated, refuted): a candidate with zero stars whose last push lies 35 days
  after \<open>now\<close> has recency 6 and scores 1.5, above the claimed ceiling of 1.0.
\<close>

theorem scoreRepo_exceeds_one_future_push:
  "\<not> scoreRepo future_push_repo day_one 0 \<le> 1"
  by (simp add: scoreRepo_def future_push_repo_def day_one_def baseRepo_def
      effective_now_def effective_recent_def velocityScore_def recencyScore_def
      releaseScore_def engagementScore_def)

text \<open>
  C8 (amended): for every candidate (stars, forks and open issues are naturals) whose
  push and release timestamps are not later than \<open>now\<close>, and every history-penalty
  set, the score lies in \<open>[-0.5, 1.0]\<close>: each weighted term then lies within its
  weight and no floor follows the penalty.
\<close>

theorem scoreRepo_bounded:
  assumes "timestamps_not_after repo (effective_now options clock)"
  shows "- (1 / 2) \<le> scoreRepo repo options clock \<and> scoreRepo repo options clock \<le> 1"
proof -
  let ?now = "effective_now options clock"
  let ?v = "if isOSSInsight repo then 0 else velocityScore repo ?now"
  let ?r = "if isOSSInsight repo then 0 else recencyScore repo ?now"
  let ?l = "releaseScore repo ?now"
  let ?e = "engagementScore repo"
  let ?s = "?v * (35 / 100) + ?r * (25 / 100) + ?l * (15 / 100) + ?e * (10 / 100)"
  have v: "0 \<le> ?v" "?v \<le> 1" using velocityScore_range [of repo ?now] by simp_all
  have "pushed_at repo \<le> ?now" using assms by (simp add: timestamps_not_after_def)
  then have r: "0 \<le> ?r" "?r \<le> 1"
    using recencyScore_nonneg [of repo ?now] recencyScore_le_1 [of repo ?now] by simp_all
  have "\<forall>rel d. latestRelease repo = Some rel \<and> relDateStr rel = Some d \<longrightarrow> d \<le> ?now"
    using assms by (auto simp: timestamps_not_after_def)
  then have l: "0 \<le> ?l" "?l \<le> 1"
    using releaseScore_nonneg [of repo ?now] releaseScore_le_1 [of repo ?now] by simp_all
  have e: "0 \<le> ?e" "?e \<le> 1" using engagementScore_range [of repo] by simp_all
  have lo: "0 \<le> ?s" and hi: "?s \<le> 85 / 100"
    using weighted_sum_range [OF v r l e] by simp_all
  have "scoreRepo repo options clock = ?s \<or> scoreRepo repo options clock = ?s - 1 / 2"
    by (simp add: scoreRepo_def Let_def)
  then show ?thesis using lo hi by auto
qed

theorem scoreRepo_bounded_witness:
  "timestamps_not_after baseRepo (effective_now day_one 0)
   \<and> - (1 / 2) \<le> scoreRepo baseRepo day_one 0 \<and> scoreRepo baseRepo day_one 0 \<le> 1"
proof -
  have h: "timestamps_not_after baseRepo (effective_now day_one 0)"
    by (simp add: timestamps_not_after_def baseRepo_def effective_now_def day_one_def)
  show ?thesis using h scoreRepo_bounded [OF h] by simp
qed

subsection \<open>History penalty\<close>

text \<open>
  C9: with every other input equal, a history-penalty set that contains the candidate's
  full name lowers the score by exactly 0.5 against the empty set, hence by at least 0.4.
\<close>

theorem history_penalty_exact:
  assumes "full_name c \<in> S"
  shows "scoreRepo c (options \<lparr> opt_recentRepoNames := Some S \<rparr>) clock
           = scoreRepo c (options \<lparr> opt_recentRepoNames := Some {} \<rparr>) clock - 1 / 2
         \<and> scoreRepo c (options \<lparr> opt_recentRepoNames := Some S \<rparr>) clock
           \<le> scoreRepo c (options \<lparr> opt_recentRepoNames := Some {} \<rparr>) clock - 4 / 10"
  using assms by (simp add: scoreRepo_def Let_def effective_now_def effective_recent_def)

theorem history_penalty_exact_witness:
  "full_name baseRepo \<in> {''org/repo''}
   \<and> scoreRepo baseRepo (day_one \<lparr> opt_recentRepoNames := Some {''org/repo''} \<rparr>) 0
       = scoreRepo baseRepo (day_one \<lparr> opt_recentRepoNames := Some {} \<rparr>) 0 - 1 / 2"
proof -
  have h: "full_name baseRepo \<in> {''org/repo''}" by (simp add: baseRepo_def)
  show ?thesis using h history_penalty_exact [OF h, of day_one 0] by simp
qed

section \<open>Diversity allocator: \<open>categorizeDiverseForSection\<close>\<close>

record budget =
  b_secondary :: int
  b_quickHits :: int

record ('a, 'b) slots =
  lead :: "'a option"
  secondary :: "'a list"
  quickHits :: "'b list"

text \<open>\<open>repo.language || "Unknown"\<close>: null and the empty string are both falsy.\<close>

definition lang_of :: "'a gh_repo_scheme \<Rightarrow> string" where
  "lang_of repo =
     (case language repo of
        None \<Rightarrow> ''Unknown''
      | Some l \<Rightarrow> if l = [] then ''Unknown'' else l)"

text \<open>
  \<open>langCount\<close> is a plain object literal \<open>{}\<close>, so a read of a key it does not own
  falls through to \<open>Object.prototype\<close>. For the property names below the read yields
  a function (an object for \<open>__proto__\<close>): a truthy value, which \<open>|| 0\<close> keeps and
  which \<open>count < maxPerLang\<close> converts to NaN, so the comparison is false.
\<close>

definition object_prototype_keys :: "string list" where
  "object_prototype_keys =
     [''constructor'', ''__defineGetter__'', ''__defineSetter__'', ''hasOwnProperty'',
      ''__lookupGetter__'', ''__lookupSetter__'', ''isPrototypeOf'',
      ''propertyIsEnumerable'', ''toString'', ''valueOf'', ''__proto__'',
      ''toLocaleString'']"

datatype js_count = Num nat | NotANumber

definition langCount_get :: "(string \<rightharpoonup> nat) \<Rightarrow> string \<Rightarrow> js_count" where
  "langCount_get langCount lang =
     (case langCount lang of
        Some n \<Rightarrow> Num n
      | None \<Rightarrow> if lang \<in> set object_prototype_keys then NotANumber else Num 0)"

text \<open>
  \<open>Math.max(2, Math.ceil(totalPromoted / distinctLangs))\<close> over the top 15; the size of
  the \<open>Set\<close> of their languages is the length of the list without duplicates.
\<close>

definition maxPerLang :: "int \<Rightarrow> 'a gh_repo_scheme list \<Rightarrow> int" where
  "maxPerLang totalPromoted scoredRepos =
     (let top15 = take 15 scoredRepos;
          distinctLangs = length (remdups (map lang_of top15))
      in max 2 \<lceil>real_of_int totalPromoted / real distinctLangs\<rceil>)"

text \<open>The first loop: one walk over the sorted list, with the three accumulators.\<close>

fun diversity_pass ::
  "int \<Rightarrow> int \<Rightarrow> 'a gh_repo_scheme list \<Rightarrow> 'a gh_repo_scheme list \<Rightarrow> 'a gh_repo_scheme list
     \<Rightarrow> (string \<rightharpoonup> nat) \<Rightarrow> 'a gh_repo_scheme list \<times> 'a gh_repo_scheme list" where
  "diversity_pass totalPromoted cap [] promoted overflow langCount = (promoted, overflow)"
| "diversity_pass totalPromoted cap (repo # rest) promoted overflow langCount =
     (let lang = lang_of repo in
      if int (length promoted) < totalPromoted then
        (case langCount_get langCount lang of
           Num count \<Rightarrow>
             if int count < cap
             then diversity_pass totalPromoted cap rest (promoted @ [repo]) overflow
                    (langCount(lang \<mapsto> count + 1))
             else diversity_pass totalPromoted cap rest promoted (overflow @ [repo]) langCount
         | NotANumber \<Rightarrow>
             diversity_pass totalPromoted cap rest promoted (overflow @ [repo]) langCount)
      else diversity_pass totalPromoted cap rest promoted (overflow @ [repo]) langCount)"

text \<open>The backfill loop, which leaves at the first iteration that finds the slots full.\<close>

fun backfill :: "int \<Rightarrow> 'r list \<Rightarrow> 'r list \<Rightarrow> 'r list" where
  "backfill totalPromoted promoted [] = promoted"
| "backfill totalPromoted promoted (repo # overflow) =
     (if int (length promoted) \<ge> totalPromoted then promoted
      else backfill totalPromoted (promoted @ [repo]) overflow)"

text \<open>\<open>xs.slice(0, n)\<close> for an integer \<open>n\<close>: a negative end counts from the back.\<close>

definition slice0 :: "'r list \<Rightarrow> int \<Rightarrow> 'r list" where
  "slice0 xs n = (if n \<ge> 0 then take (nat n) xs else take (length xs - nat (- n)) xs)"

text \<open>The capped walk alone, and the promoted and overflow lists after the backfill.\<close>

definition capped_pass ::
  "'a gh_repo_scheme list \<Rightarrow> budget \<Rightarrow> 'a gh_repo_scheme list \<times> 'a gh_repo_scheme list" where
  "capped_pass scoredRepos budget =
     (let totalPromoted = 1 + b_secondary budget
      in diversity_pass totalPromoted (maxPerLang totalPromoted scoredRepos) scoredRepos
           [] [] Map.empty)"

definition promoted_and_overflow ::
  "'a gh_repo_scheme list \<Rightarrow> budget \<Rightarrow> 'a gh_repo_scheme list \<times> 'a gh_repo_scheme list" where
  "promoted_and_overflow scoredRepos budget =
     (let totalPromoted = 1 + b_secondary budget;
          (promoted, overflow) = capped_pass scoredRepos budget
      in if int (length promoted) < totalPromoted then
           (let promoted' = backfill totalPromoted promoted overflow;
                promotedSet = set (map full_name promoted')
            in (promoted', filter (\<lambda>repo. full_name repo \<notin> promotedSet) scoredRepos))
         else (promoted, overflow))"

definition categorizeDiverseForSection ::
  "'a gh_repo_scheme list \<Rightarrow> budget \<Rightarrow> ('a gh_repo_scheme, 'a gh_repo_scheme) slots" where
  "categorizeDiverseForSection scoredRepos budget =
     (if scoredRepos = [] then \<lparr> lead = None, secondary = [], quickHits = [] \<rparr>
      else
        (let (promoted, overflow) = promoted_and_overflow scoredRepos budget
         in \<lparr> lead = (case promoted of [] \<Rightarrow> None | r # _ \<Rightarrow> Some r),
              secondary = drop 1 promoted,
              quickHits = slice0 overflow (b_quickHits budget) \<rparr>))"

definition categorizeDiverse ::
  "'a gh_repo_scheme list \<Rightarrow> ('a gh_repo_scheme, 'a gh_repo_scheme) slots" where
  "categorizeDiverse scoredRepos =
     categorizeDiverseForSection scoredRepos \<lparr> b_secondary = 6, b_quickHits = 10 \<rparr>"

text \<open>The promoted set of a result, \<open>[lead, ...secondary]\<close> without a null lead.\<close>

definition promoted_of :: "('r, 'q) slots \<Rightarrow> 'r list" where
  "promoted_of s = (case lead s of None \<Rightarrow> secondary s | Some r \<Rightarrow> r # secondary s)"

definition lang_total :: "string \<Rightarrow> 'a gh_repo_scheme list \<Rightarrow> nat" where
  "lang_total l rs = length (filter (\<lambda>r. lang_of r = l) rs)"

definition score_descending :: "'a scored_repo_scheme list \<Rightarrow> bool" where
  "score_descending rs = sorted_wrt (\<lambda>a b. score a \<ge> score b) rs"

text \<open>The unit tests' \<open>makeRepo(name, lang, score)\<close>.\<close>

definition makeRepo :: "string \<Rightarrow> string \<Rightarrow> real \<Rightarrow> scored_repo" where
  "makeRepo n l s =
     \<lparr> full_name = n, gh_name = n, gh_description = None, stargazers_count = 0,
       forks_count = 0, open_issues_count = None, language = Some l, created_at = 0,
       pushed_at = 0, latestRelease = None, isOSSInsight = False, score = s \<rparr>"

subsection \<open>The capped walk respects the cap\<close>

lemma maxPerLang_ge_2: "2 \<le> maxPerLang t rs"
  by (simp add: maxPerLang_def Let_def)

lemma lang_total_append [simp]: "lang_total l (xs @ ys) = lang_total l xs + lang_total l ys"
  by (simp add: lang_total_def)

lemma lang_total_Nil [simp]: "lang_total l [] = 0"
  by (simp add: lang_total_def)

lemma lang_total_single: "lang_total l [r] = (if lang_of r = l then 1 else 0)"
  by (simp add: lang_total_def)

lemma diversity_pass_respects_cap:
  assumes "\<forall>l. lang_total l promoted = (case langCount l of None \<Rightarrow> 0 | Some n \<Rightarrow> n)"
      and "\<forall>l. int (lang_total l promoted) \<le> cap"
  shows "int (lang_total l (fst (diversity_pass tot cap rs promoted overflow langCount))) \<le> cap"
  using assms
proof (induction rs arbitrary: promoted overflow langCount)
  case Nil
  then show ?case by simp
next
  case (Cons repo rest)
  show ?case
  proof (cases "int (length promoted) < tot")
    case False
    then show ?thesis using Cons.IH [OF Cons.prems] by simp
  next
    case True
    show ?thesis
    proof (cases "langCount_get langCount (lang_of repo)")
      case NotANumber
      then show ?thesis using True Cons.IH [OF Cons.prems] by simp
    next
      case (Num count)
      have cnt: "lang_total (lang_of repo) promoted = count"
        using Num Cons.prems(1) [rule_format, of "lang_of repo"]
        by (auto simp: langCount_get_def split: option.splits if_splits)
      show ?thesis
      proof (cases "int count < cap")
        case False
        then show ?thesis using True Num Cons.IH [OF Cons.prems] by simp
      next
        case lt: True
        let ?p = "promoted @ [repo]"
        let ?m = "langCount(lang_of repo \<mapsto> count + 1)"
        have a: "\<forall>l. lang_total l ?p = (case ?m l of None \<Rightarrow> 0 | Some n \<Rightarrow> n)"
          using Cons.prems(1) cnt by (simp add: lang_total_single)
        have b: "\<forall>l. int (lang_total l ?p) \<le> cap"
          using Cons.prems(2) cnt lt by (auto simp: lang_total_single)
        have eq: "diversity_pass tot cap (repo # rest) promoted overflow langCount
                    = diversity_pass tot cap rest ?p overflow ?m"
          using True Num lt by simp
        show ?thesis unfolding eq by (rule Cons.IH [OF a b])
      qed
    qed
  qed
qed

lemma capped_pass_respects_cap:
  "int (lang_total l (fst (capped_pass scoredRepos budget)))
     \<le> maxPerLang (1 + b_secondary budget) scoredRepos"
proof -
  have "2 \<le> maxPerLang (1 + b_secondary budget) scoredRepos" by (rule maxPerLang_ge_2)
  then show ?thesis
    unfolding capped_pass_def Let_def
    by (intro diversity_pass_respects_cap) simp_all
qed

lemma promoted_of_categorize:
  "scoredRepos \<noteq> [] \<Longrightarrow>
   promoted_of (categorizeDiverseForSection scoredRepos budget)
     = fst (promoted_and_overflow scoredRepos budget)"
  by (auto simp: promoted_of_def categorizeDiverseForSection_def Let_def
      split: prod.splits list.splits)

lemma backfill_take:
  "backfill tot promoted overflow
     = promoted @ take (nat (tot - int (length promoted))) overflow"
proof (induction overflow arbitrary: promoted)
  case Nil then show ?case by simp
next
  case (Cons r rest)
  show ?case
  proof (cases "int (length promoted) \<ge> tot")
    case True then show ?thesis by simp
  next
    case False
    then have "nat (tot - int (length promoted)) = Suc (nat (tot - int (length (promoted @ [r]))))"
      by simp
    then show ?thesis using False Cons.IH [of "promoted @ [r]"] by simp
  qed
qed

lemma diversity_pass_prefix:
  "\<exists>ys. fst (diversity_pass tot cap rs promoted overflow langCount) = promoted @ ys"
proof (induction rs arbitrary: promoted overflow langCount)
  case Nil then show ?case by simp
next
  case (Cons repo rest)
  show ?case
    using Cons.IH [of promoted "overflow @ [repo]" langCount]
      Cons.IH [of "promoted @ [repo]" overflow]
    by (auto simp: Let_def split: js_count.splits)
qed


subsection \<open>The diversity cap and the backfill\<close>

text \<open>The promoted list is the capped walk's picks followed by the backfilled ones.\<close>

lemma promoted_is_capped_then_backfilled:
  "fst (promoted_and_overflow xs b)
     = fst (capped_pass xs b)
       @ take (nat (1 + b_secondary b - int (length (fst (capped_pass xs b)))))
           (snd (capped_pass xs b))"
  by (auto simp: promoted_and_overflow_def Let_def backfill_take split: prod.splits)

lemma makeRepo_sel [simp]:
  "full_name (makeRepo n l s) = n"
  "lang_of (makeRepo n l s) = (if l = [] then ''Unknown'' else l)"
  "score (makeRepo n l s) = s"
  by (simp_all add: makeRepo_def lang_of_def)

definition rust_heavy :: "scored_repo list" where
  "rust_heavy =
     [makeRepo ''a/1'' ''Rust'' 10, makeRepo ''a/2'' ''Rust'' 9, makeRepo ''a/3'' ''Rust'' 8,
      makeRepo ''a/4'' ''Rust'' 7, makeRepo ''a/5'' ''Rust'' 6, makeRepo ''a/6'' ''Python'' 5,
      makeRepo ''a/7'' ''Go'' 4, makeRepo ''a/8'' ''JS'' 3]"

definition four_langs :: "scored_repo list" where
  "four_langs =
     [makeRepo ''a/1'' ''Rust'' 10, makeRepo ''a/2'' ''Rust'' 9, makeRepo ''a/3'' ''Rust'' 8,
      makeRepo ''a/4'' ''Go'' 7, makeRepo ''a/5'' ''Go'' 6, makeRepo ''a/6'' ''Python'' 5,
      makeRepo ''a/7'' ''Python'' 4, makeRepo ''a/8'' ''JS'' 3]"

definition front_budget :: budget where
  "front_budget = \<lparr> b_secondary = 6, b_quickHits = 10 \<rparr>"

lemma rust_heavy_promoted:
  "promoted_of (categorizeDiverseForSection rust_heavy front_budget)
     = [makeRepo ''a/1'' ''Rust'' 10, makeRepo ''a/2'' ''Rust'' 9, makeRepo ''a/6'' ''Python'' 5,
        makeRepo ''a/7'' ''Go'' 4, makeRepo ''a/8'' ''JS'' 3, makeRepo ''a/3'' ''Rust'' 8,
        makeRepo ''a/4'' ''Rust'' 7]"
  by (simp add: rust_heavy_def front_budget_def categorizeDiverseForSection_def
      promoted_and_overflow_def capped_pass_def maxPerLang_def langCount_get_def
      object_prototype_keys_def promoted_of_def Let_def)

text \<open>
  C2 (as stated, refuted): eight score-descending candidates over four languages, five of
  them Rust, with seven promoted slots. The cap is \<open>max(2, ceil(7/4)) = 2\<close>; the capped
  walk promotes five candidates, and the backfill adds two more Rust ones, four in all.
\<close>

theorem cap_exceeded_by_backfill:
  "score_descending rust_heavy
   \<and> 4 \<le> card (set (map lang_of rust_heavy))
   \<and> 1 + b_secondary front_budget = 7
   \<and> \<not> int (lang_total ''Rust'' (promoted_of (categorizeDiverseForSection rust_heavy front_budget)))
         \<le> max 2 \<lceil>7 / real (card (set (map lang_of (take 15 rust_heavy))))\<rceil>"
proof -
  have a: "score_descending rust_heavy"
    by (simp add: score_descending_def rust_heavy_def)
  have l: "map lang_of rust_heavy = [''Rust'', ''Rust'', ''Rust'', ''Rust'', ''Rust'', ''Python'', ''Go'', ''JS'']"
    by (simp add: rust_heavy_def)
  have c: "card (set (map lang_of rust_heavy)) = 4"
    unfolding l by (simp add: card_insert_if)
  have t: "take 15 rust_heavy = rust_heavy" by (simp add: rust_heavy_def)
  have n: "lang_total ''Rust'' (promoted_of (categorizeDiverseForSection rust_heavy front_budget)) = 4"
    unfolding rust_heavy_promoted by (simp add: lang_total_def)
  have b: "1 + b_secondary front_budget = 7" by (simp add: front_budget_def)
  have d: "\<not> int (lang_total ''Rust'' (promoted_of (categorizeDiverseForSection rust_heavy front_budget)))
         \<le> max 2 \<lceil>7 / real (card (set (map lang_of (take 15 rust_heavy))))\<rceil>"
    unfolding t c n by simp
  have c4: "4 \<le> card (set (map lang_of rust_heavy))" unfolding c by simp
  show ?thesis using a c4 b d by blast
qed

text \<open>
  C2 (amended): for every score-descending input spanning at least four languages and
  every budget with seven promoted slots, if the capped walk itself fills all seven slots
  (so the backfill does not run), no language has more than
  \<open>max(2, ceil(7 / distinctLanguageCountInTop15))\<close> promoted candidates.
\<close>

theorem diversity_cap_when_no_backfill:
  fixes scoredRepos :: "'a scored_repo_scheme list"
  assumes "score_descending scoredRepos"
      and "4 \<le> card (set (map lang_of scoredRepos))"
      and "1 + b_secondary budget = 7"
      and "int (length (fst (capped_pass scoredRepos budget))) = 7"
  shows "int (lang_total l (promoted_of (categorizeDiverseForSection scoredRepos budget)))
           \<le> max 2 \<lceil>7 / real (card (set (map lang_of (take 15 scoredRepos))))\<rceil>"
proof -
  have ne: "scoredRepos \<noteq> []" using assms(2) by auto
  have "fst (promoted_and_overflow scoredRepos budget) = fst (capped_pass scoredRepos budget)"
    using assms(3,4) by (auto simp: promoted_and_overflow_def Let_def split: prod.splits)
  then have "promoted_of (categorizeDiverseForSection scoredRepos budget)
               = fst (capped_pass scoredRepos budget)"
    using promoted_of_categorize [OF ne] by simp
  moreover have "maxPerLang (1 + b_secondary budget) scoredRepos
                   = max 2 \<lceil>7 / real (card (set (map lang_of (take 15 scoredRepos))))\<rceil>"
    using assms(3) by (simp add: maxPerLang_def Let_def length_remdups_card_conv)
  ultimately show ?thesis
    using capped_pass_respects_cap [of l scoredRepos budget] by simp
qed

lemma four_langs_capped:
  "fst (capped_pass four_langs front_budget)
     = [makeRepo ''a/1'' ''Rust'' 10, makeRepo ''a/2'' ''Rust'' 9, makeRepo ''a/4'' ''Go'' 7,
        makeRepo ''a/5'' ''Go'' 6, makeRepo ''a/6'' ''Python'' 5, makeRepo ''a/7'' ''Python'' 4,
        makeRepo ''a/8'' ''JS'' 3]"
  by (simp add: four_langs_def front_budget_def capped_pass_def maxPerLang_def
      langCount_get_def object_prototype_keys_def Let_def)

theorem diversity_cap_when_no_backfill_witness:
  "score_descending four_langs
   \<and> 4 \<le> card (set (map lang_of four_langs))
   \<and> 1 + b_secondary front_budget = 7
   \<and> int (length (fst (capped_pass four_langs front_budget))) = 7
   \<and> int (lang_total ''Rust'' (promoted_of (categorizeDiverseForSection four_langs front_budget)))
        \<le> max 2 \<lceil>7 / real (card (set (map lang_of (take 15 four_langs))))\<rceil>"
proof -
  have a: "score_descending four_langs"
    by (simp add: score_descending_def four_langs_def)
  have l: "map lang_of four_langs = [''Rust'', ''Rust'', ''Rust'', ''Go'', ''Go'', ''Python'', ''Python'', ''JS'']"
    by (simp add: four_langs_def)
  have c: "4 \<le> card (set (map lang_of four_langs))"
    unfolding l by (simp add: card_insert_if)
  have b: "1 + b_secondary front_budget = 7" by (simp add: front_budget_def)
  have f: "int (length (fst (capped_pass four_langs front_budget))) = 7"
    unfolding four_langs_capped by simp
  show ?thesis
    using a c b f diversity_cap_when_no_backfill [OF a c b f, of "''Rust''"] by blast
qed


subsection \<open>The lead and the first candidate\<close>

lemma backfill_prefix: "\<exists>ys. backfill tot promoted overflow = promoted @ ys"
  by (simp add: backfill_take)

lemma lead_is_first_outside_prototype_keys:
  assumes "0 \<le> b_secondary budget"
      and "lang_of r \<notin> set object_prototype_keys"
  shows "lead (categorizeDiverseForSection (r # rest) budget) = Some r"
proof -
  let ?tot = "1 + b_secondary budget"
  let ?cap = "maxPerLang ?tot (r # rest)"
  have cap: "2 \<le> ?cap" by (rule maxPerLang_ge_2)
  have get: "langCount_get Map.empty (lang_of r) = Num 0"
    using assms(2) by (simp add: langCount_get_def)
  have step: "diversity_pass ?tot ?cap (r # rest) [] [] Map.empty
        = diversity_pass ?tot ?cap rest ([] @ [r]) [] (Map.empty(lang_of r \<mapsto> 0 + 1))"
    using assms(1) cap get by simp
  obtain ys where ys: "fst (capped_pass (r # rest) budget) = [r] @ ys"
    using diversity_pass_prefix [of ?tot ?cap rest "[] @ [r]" "[]" "Map.empty(lang_of r \<mapsto> 0 + 1)"]
    unfolding capped_pass_def Let_def step by auto
  obtain zs where zs: "fst (promoted_and_overflow (r # rest) budget) = r # zs"
  proof (cases "int (length (fst (capped_pass (r # rest) budget))) < ?tot")
    case False
    then have "fst (promoted_and_overflow (r # rest) budget) = r # ys"
      using ys by (auto simp: promoted_and_overflow_def Let_def split: prod.splits)
    then show ?thesis using that by blast
  next
    case True
    then have "fst (promoted_and_overflow (r # rest) budget)
        = backfill ?tot (fst (capped_pass (r # rest) budget)) (snd (capped_pass (r # rest) budget))"
      by (auto simp: promoted_and_overflow_def Let_def split: prod.splits)
    then show ?thesis using that ys by (simp add: backfill_take)
  qed
  then show ?thesis
    by (auto simp: categorizeDiverseForSection_def Let_def split: prod.splits)
qed

definition js_named_language :: "scored_repo list" where
  "js_named_language = [makeRepo ''a/1'' ''constructor'' 2, makeRepo ''a/2'' ''Rust'' 1]"

text \<open>
  C10 (the code at the failing input): when the first candidate's language is the name of an
  inherited property of the counter object, the walk sends it to the overflow list and the
  second candidate becomes the lead; the backfill then appends the first one as a secondary.
\<close>

theorem lead_skips_first_for_prototype_key:
  "lead (categorizeDiverseForSection js_named_language \<lparr> b_secondary = 1, b_quickHits = 0 \<rparr>)
     = Some (makeRepo ''a/2'' ''Rust'' 1)"
  by (simp add: js_named_language_def categorizeDiverseForSection_def
      promoted_and_overflow_def capped_pass_def maxPerLang_def langCount_get_def
      object_prototype_keys_def Let_def)

section \<open>Section fetch orchestrator (src/github.js, src/sections.js)\<close>

text \<open>
  Failures are values: a rejected search request, the front page without a lead, and a
  failed call of the text backend.
\<close>

datatype error = RequestFailed | NoReposFound | BackendError

text \<open>
  The display shape of a repository. \<open>enrichRepo\<close> and \<open>toQuickHit\<close> agree on the
  fields kept here; \<open>url\<close>, \<open>topics\<close>, the fork and issue counts, the dates and the
  fetched readme and release excerpts ride along unread by the pipeline and are left out.
  The display field \<open>language\<close> is named \<open>languageName\<close>.
\<close>

record repo_info =
  name :: string
  shortName :: string
  description :: string
  stars :: nat
  languageName :: string

definition enrichRepo :: "'a gh_repo_scheme \<Rightarrow> repo_info" where
  "enrichRepo repo =
     \<lparr> name = full_name repo, shortName = gh_name repo,
       description = (case gh_description repo of None \<Rightarrow> [] | Some d \<Rightarrow> d),
       stars = stargazers_count repo, languageName = lang_of repo \<rparr>"

definition toQuickHit :: "'a gh_repo_scheme \<Rightarrow> repo_info" where
  "toQuickHit repo =
     \<lparr> name = full_name repo, shortName = gh_name repo,
       description = (case gh_description repo of None \<Rightarrow> [] | Some d \<Rightarrow> d),
       stars = stargazers_count repo, languageName = lang_of repo \<rparr>"

record query =
  topics :: "string list"
  languages :: "string list"

record section_config =
  sec_id :: string
  sec_label :: string
  sec_budget :: budget
  sec_query :: "query option"
  isXPulse :: bool

definition SECTIONS :: "(string \<times> section_config) list" where
  "SECTIONS =
     [(''frontPage'', \<lparr> sec_id = ''frontPage'', sec_label = ''Front Page'',
         sec_budget = \<lparr> b_secondary = 7, b_quickHits = 10 \<rparr>, sec_query = None,
         isXPulse = False \<rparr>),
      (''ai'', \<lparr> sec_id = ''ai'', sec_label = ''AI'',
         sec_budget = \<lparr> b_secondary = 3, b_quickHits = 5 \<rparr>,
         sec_query = Some \<lparr> topics = [''ai'', ''machine-learning'', ''deep-learning'', ''llm'',
            ''gpt'', ''neural-network'', ''nlp'', ''computer-vision'', ''generative-ai'',
            ''transformers''], languages = [''Jupyter Notebook''] \<rparr>,
         isXPulse = False \<rparr>),
      (''robotics'', \<lparr> sec_id = ''robotics'', sec_label = ''Robotics'',
         sec_budget = \<lparr> b_secondary = 3, b_quickHits = 5 \<rparr>,
         sec_query = Some \<lparr> topics = [''robotics'', ''robot'', ''ros'', ''autonomous'', ''drone'',
            ''embedded'', ''iot'', ''arduino'', ''sensor''], languages = [] \<rparr>,
         isXPulse = False \<rparr>),
      (''cyber'', \<lparr> sec_id = ''cyber'', sec_label = ''Cyber'',
         sec_budget = \<lparr> b_secondary = 3, b_quickHits = 5 \<rparr>,
         sec_query = Some \<lparr> topics = [''security'', ''cybersecurity'', ''hacking'', ''pentest'',
            ''vulnerability'', ''exploit'', ''ctf'', ''malware'', ''encryption''],
            languages = [] \<rparr>,
         isXPulse = False \<rparr>),
      (''systems'', \<lparr> sec_id = ''systems'', sec_label = ''Systems'',
         sec_budget = \<lparr> b_secondary = 3, b_quickHits = 5 \<rparr>,
         sec_query = Some \<lparr> topics = [],
            languages = [''Rust'', ''Go'', ''C'', ''C++'', ''Zig''] \<rparr>,
         isXPulse = False \<rparr>),
      (''diy'', \<lparr> sec_id = ''diy'', sec_label = ''DIY'',
         sec_budget = \<lparr> b_secondary = 3, b_quickHits = 5 \<rparr>,
         sec_query = Some \<lparr> topics = [''diy'', ''maker'', ''hardware'', ''3d-printing'',
            ''home-automation'', ''self-hosted'', ''homelab'', ''raspberry-pi''],
            languages = [] \<rparr>,
         isXPulse = False \<rparr>),
      (''xPulse'', \<lparr> sec_id = ''xPulse'', sec_label = ''X Pulse'',
         sec_budget = \<lparr> b_secondary = 0, b_quickHits = 0 \<rparr>, sec_query = None,
         isXPulse = True \<rparr>)]"

definition SECTION_ORDER :: "string list" where
  "SECTION_ORDER =
     [''frontPage'', ''ai'', ''robotics'', ''cyber'', ''systems'', ''diy'', ''xPulse'']"

text \<open>
  The repository source. A section query never fails outward (\<open>.catch(() => ({ items:
  [] }))\<close>), so it is the list of items it yields; the two front-page searches can
  reject; the trending aggregator and the release lookup turn every failure into an empty
  list and \<open>null\<close>.
\<close>

record github =
  search_topic :: "string \<Rightarrow> gh_repo list"
  search_language :: "string \<Rightarrow> gh_repo list"
  resultA :: "error + gh_repo list"
  resultB :: "error + gh_repo list"
  ossInsight :: "gh_repo list"
  release_of :: "string \<Rightarrow> release option"

text \<open>The deduplication loops: \<open>seen\<close> and \<open>repos\<close> are threaded through.\<close>

fun push_unseen ::
  "'a gh_repo_scheme list \<Rightarrow> string set \<times> 'a gh_repo_scheme list
     \<Rightarrow> string set \<times> 'a gh_repo_scheme list" where
  "push_unseen [] (seen, repos) = (seen, repos)"
| "push_unseen (repo # rest) (seen, repos) =
     (if full_name repo \<notin> seen
      then push_unseen rest (insert (full_name repo) seen, repos @ [repo])
      else push_unseen rest (seen, repos))"

definition fetchSectionRepos :: "github \<Rightarrow> query \<Rightarrow> gh_repo list" where
  "fetchSectionRepos gh q =
     (let results = map (search_topic gh) (take 3 (topics q))
                    @ map (search_language gh) (languages q)
      in snd (push_unseen (concat results) ({}, [])))"

text \<open>
  \<open>map\<close> to \<open>{...repo, _score}\<close> and the stable \<open>sort\<close> by descending score.
\<close>

definition with_score :: "score_options \<Rightarrow> int \<Rightarrow> gh_repo \<Rightarrow> scored_repo" where
  "with_score scoreOpts clock repo =
     gh_repo.extend repo \<lparr> score = scoreRepo repo scoreOpts clock \<rparr>"

definition sort_by_score_desc :: "'a scored_repo_scheme list \<Rightarrow> 'a scored_repo_scheme list" where
  "sort_by_score_desc rs = sort_key (\<lambda>r. - score r) rs"

type_synonym section_data = "(repo_info, repo_info) slots"

text \<open>
  \<open>fetchAndEnrichSection\<close> reads the query and the budget of its section; the shared
  set \<open>globalSeen\<close> is passed in and returned. \<open>now\<close> is the clock at the call.
\<close>

definition fetchAndEnrichSection ::
  "github \<Rightarrow> query \<Rightarrow> budget \<Rightarrow> string set \<Rightarrow> string set \<Rightarrow> int
     \<Rightarrow> section_data \<times> string set" where
  "fetchAndEnrichSection gh q b globalSeen recentRepoNames now =
     (let repos = fetchSectionRepos gh q;
          filtered = filter (\<lambda>r. full_name r \<notin> globalSeen) repos
      in if filtered = [] then (\<lparr> lead = None, secondary = [], quickHits = [] \<rparr>, globalSeen)
         else
           (let scoreOpts = \<lparr> opt_now = Some now, opt_recentRepoNames = Some recentRepoNames \<rparr>;
                scored = sort_by_score_desc (map (with_score scoreOpts now) filtered);
                alloc = categorizeDiverseForSection scored b;
                claimed = promoted_of alloc;
                globalSeen' = globalSeen \<union> set (map full_name claimed)
            in case lead alloc of
                 None \<Rightarrow>
                   (\<lparr> lead = None, secondary = [],
                      quickHits = map toQuickHit (quickHits alloc) \<rparr>, globalSeen')
               | Some l \<Rightarrow>
                   (\<lparr> lead = Some (enrichRepo l),
                      secondary = map enrichRepo (secondary alloc),
                      quickHits = map toQuickHit (quickHits alloc) \<rparr>, globalSeen')))"

definition fetchTrending ::
  "github \<Rightarrow> string set \<Rightarrow> int \<Rightarrow> error + (scored_repo, scored_repo) slots" where
  "fetchTrending gh recentRepoNames now =
     (case resultA gh of
        Inl e \<Rightarrow> Inl e
      | Inr itemsA \<Rightarrow>
          (case resultB gh of
             Inl e \<Rightarrow> Inl e
           | Inr itemsB \<Rightarrow>
               (let (seen, repos) = push_unseen (itemsA @ itemsB) ({}, []);
                    (seen, repos) = push_unseen (ossInsight gh) (seen, repos);
                    scoreOpts = \<lparr> opt_now = Some now,
                                  opt_recentRepoNames = Some recentRepoNames \<rparr>;
                    preScored = sort_by_score_desc (map (with_score scoreOpts now) repos);
                    top15 = take 15 preScored;
                    withReleases =
                      map (\<lambda>repo. repo \<lparr> latestRelease := release_of gh (full_name repo) \<rparr>) top15;
                    reScored = sort_by_score_desc
                      (map (\<lambda>repo. repo \<lparr> score := scoreRepo repo scoreOpts now \<rparr>) withReleases)
                in Inr (categorizeDiverse reScored))))"

definition fetchAndEnrich :: "github \<Rightarrow> string set \<Rightarrow> int \<Rightarrow> error + section_data" where
  "fetchAndEnrich gh recentRepoNames now =
     (case fetchTrending gh recentRepoNames now of
        Inl e \<Rightarrow> Inl e
      | Inr alloc \<Rightarrow>
          (case lead alloc of
             None \<Rightarrow> Inl NoReposFound
           | Some l \<Rightarrow>
               Inr \<lparr> lead = Some (enrichRepo l),
                     secondary = map enrichRepo (secondary alloc),
                     quickHits = map toQuickHit (quickHits alloc) \<rparr>))"

text \<open>The sequential loop over \<open>SECTION_ORDER\<close>; \<open>clock id\<close> is the time of section \<open>id\<close>.\<close>

fun fetch_topic_sections ::
  "github \<Rightarrow> string set \<Rightarrow> (string \<Rightarrow> int) \<Rightarrow> string list \<Rightarrow> string set
     \<Rightarrow> (string \<times> section_data) list" where
  "fetch_topic_sections gh recentRepoNames clock [] globalSeen = []"
| "fetch_topic_sections gh recentRepoNames clock (sid # ids) globalSeen =
     (if sid = ''frontPage'' then fetch_topic_sections gh recentRepoNames clock ids globalSeen
      else
        (case map_of SECTIONS sid of
           None \<Rightarrow> fetch_topic_sections gh recentRepoNames clock ids globalSeen
         | Some config \<Rightarrow>
             (case sec_query config of
                None \<Rightarrow> fetch_topic_sections gh recentRepoNames clock ids globalSeen
              | Some q \<Rightarrow>
                  (let (data, globalSeen') =
                         fetchAndEnrichSection gh q (sec_budget config) globalSeen
                           recentRepoNames (clock sid)
                   in (sid, data)
                      # fetch_topic_sections gh recentRepoNames clock ids globalSeen'))))"

definition fetchAllSections ::
  "github \<Rightarrow> string set \<Rightarrow> (string \<Rightarrow> int) \<Rightarrow> error + (string \<times> section_data) list" where
  "fetchAllSections gh recentRepoNames clock =
     (case fetchAndEnrich gh recentRepoNames (clock ''frontPage'') of
        Inl e \<Rightarrow> Inl e
      | Inr frontPageData \<Rightarrow>
          (let globalSeen = (case lead frontPageData of None \<Rightarrow> {} | Some l \<Rightarrow> {name l})
                            \<union> set (map name (secondary frontPageData))
           in Inr ((''frontPage'', frontPageData)
                   # fetch_topic_sections gh recentRepoNames clock SECTION_ORDER globalSeen)))"

text \<open>The names a section headlines: its lead and its secondaries.\<close>

definition headliners :: "section_data \<Rightarrow> string list" where
  "headliners d = map name (promoted_of d)"

subsection \<open>Cross-section deduplication\<close>

lemma diversity_pass_subset:
  "set (fst (diversity_pass tot cap rs promoted overflow langCount)) \<subseteq> set promoted \<union> set rs
   \<and> set (snd (diversity_pass tot cap rs promoted overflow langCount)) \<subseteq> set overflow \<union> set rs"
proof (induction rs arbitrary: promoted overflow langCount)
  case Nil then show ?case by simp
next
  case (Cons repo rest)
  have a: "set (fst (diversity_pass tot cap rest promoted (overflow @ [repo]) langCount))
             \<subseteq> set promoted \<union> set (repo # rest)
           \<and> set (snd (diversity_pass tot cap rest promoted (overflow @ [repo]) langCount))
             \<subseteq> set overflow \<union> set (repo # rest)"
    using Cons.IH [of promoted "overflow @ [repo]" langCount] by auto
  have b: "\<And>m. set (fst (diversity_pass tot cap rest (promoted @ [repo]) overflow m))
             \<subseteq> set promoted \<union> set (repo # rest)
           \<and> set (snd (diversity_pass tot cap rest (promoted @ [repo]) overflow m))
             \<subseteq> set overflow \<union> set (repo # rest)"
    using Cons.IH [of "promoted @ [repo]" overflow] by auto
  show ?case
    using a b by (simp add: Let_def split: js_count.splits)
qed

lemma capped_pass_subset:
  "set (fst (capped_pass xs b)) \<subseteq> set xs \<and> set (snd (capped_pass xs b)) \<subseteq> set xs"
  using diversity_pass_subset [of "1 + b_secondary b" "maxPerLang (1 + b_secondary b) xs" xs "[]" "[]" Map.empty]
  by (simp add: capped_pass_def Let_def)

lemma promoted_subset: "set (fst (promoted_and_overflow xs b)) \<subseteq> set xs"
proof -
  obtain p ov where c: "capped_pass xs b = (p, ov)" by (cases "capped_pass xs b")
  have s: "set p \<subseteq> set xs" "set ov \<subseteq> set xs" using capped_pass_subset [of xs b] c by simp_all
  have "set (take (nat (1 + b_secondary b - int (length p))) ov) \<subseteq> set xs"
    using s(2) set_take_subset by fastforce
  then show ?thesis using s c
    by (simp add: promoted_and_overflow_def Let_def backfill_take)
qed

lemma promoted_of_categorize_subset:
  "set (promoted_of (categorizeDiverseForSection xs b)) \<subseteq> set xs"
proof (cases "xs = []")
  case True
  then show ?thesis by (simp add: categorizeDiverseForSection_def promoted_of_def)
next
  case False
  then show ?thesis using promoted_of_categorize [OF False, of b] promoted_subset [of xs b] by simp
qed

lemma no_lead_no_secondary:
  "lead (categorizeDiverseForSection xs b) = None \<Longrightarrow> secondary (categorizeDiverseForSection xs b) = []"
  by (auto simp: categorizeDiverseForSection_def Let_def split: prod.splits list.splits if_splits)

lemma full_name_with_score [simp]: "full_name (with_score opts c r) = full_name r"
  by (simp add: with_score_def gh_repo.defs)

lemma set_sort_by_score_desc [simp]: "set (sort_by_score_desc rs) = set rs"
  by (simp add: sort_by_score_desc_def)

lemma name_enrichRepo [simp]: "name (enrichRepo r) = full_name r"
  by (simp add: enrichRepo_def)

lemma fetchAndEnrichSection_headliners:
  "set (headliners (fst (fetchAndEnrichSection gh q b G recent now))) \<inter> G = {}
   \<and> snd (fetchAndEnrichSection gh q b G recent now)
       = G \<union> set (headliners (fst (fetchAndEnrichSection gh q b G recent now)))"
proof -
  let ?filtered = "filter (\<lambda>r. full_name r \<notin> G) (fetchSectionRepos gh q)"
  let ?opts = "\<lparr> opt_now = Some now, opt_recentRepoNames = Some recent \<rparr>"
  let ?scored = "sort_by_score_desc (map (with_score ?opts now) ?filtered)"
  let ?alloc = "categorizeDiverseForSection ?scored b"
  show ?thesis
  proof (cases "?filtered = []")
    case True
    then show ?thesis
      by (simp add: fetchAndEnrichSection_def Let_def headliners_def promoted_of_def)
  next
    case False
    have sub: "set (promoted_of ?alloc) \<subseteq> set ?scored"
      by (rule promoted_of_categorize_subset)
    have names: "full_name ` set (promoted_of ?alloc) \<inter> G = {}"
      using sub by auto
    have h: "headliners (fst (fetchAndEnrichSection gh q b G recent now))
               = map full_name (promoted_of ?alloc)"
      using False no_lead_no_secondary [of ?scored b]
      by (auto simp: fetchAndEnrichSection_def Let_def headliners_def promoted_of_def
          split: option.splits)
    have g: "snd (fetchAndEnrichSection gh q b G recent now)
               = G \<union> set (map full_name (promoted_of ?alloc))"
      using False
      by (auto simp: fetchAndEnrichSection_def Let_def split: option.splits)
    show ?thesis unfolding h g using names by auto
  qed
qed


lemma fetch_topic_sections_disjoint:
  "(\<forall>k < length (fetch_topic_sections gh recent clock ids G).
       set (headliners (snd (fetch_topic_sections gh recent clock ids G ! k))) \<inter> G = {})
   \<and> (\<forall>i j. i < j \<and> j < length (fetch_topic_sections gh recent clock ids G) \<longrightarrow>
         set (headliners (snd (fetch_topic_sections gh recent clock ids G ! i)))
         \<inter> set (headliners (snd (fetch_topic_sections gh recent clock ids G ! j))) = {})"
proof (induction ids arbitrary: G)
  case Nil
  then show ?case by simp
next
  case (Cons sid ids)
  show ?case
  proof (cases "sid \<noteq> ''frontPage'' \<and> (\<exists>config q. map_of SECTIONS sid = Some config \<and> sec_query config = Some q)")
    case False
    then have "fetch_topic_sections gh recent clock (sid # ids) G
                 = fetch_topic_sections gh recent clock ids G"
      by (auto split: option.splits)
    then show ?thesis using Cons.IH [of G] by simp
  next
    case True
    then obtain config q where c: "sid \<noteq> ''frontPage''" "map_of SECTIONS sid = Some config"
      "sec_query config = Some q" by blast
    let ?res = "fetchAndEnrichSection gh q (sec_budget config) G recent (clock sid)"
    let ?d = "fst ?res"
    let ?G' = "snd ?res"
    let ?rest = "fetch_topic_sections gh recent clock ids ?G'"
    have eq: "fetch_topic_sections gh recent clock (sid # ids) G = (sid, ?d) # ?rest"
      using c by (simp add: case_prod_beta)
    have d: "set (headliners ?d) \<inter> G = {}" and g: "?G' = G \<union> set (headliners ?d)"
      using fetchAndEnrichSection_headliners [of gh q "sec_budget config" G recent "clock sid"]
      by blast+
    have ih1: "\<And>k. k < length ?rest \<Longrightarrow> set (headliners (snd (?rest ! k))) \<inter> ?G' = {}"
      and ih2: "\<And>i j. i < j \<Longrightarrow> j < length ?rest \<Longrightarrow>
         set (headliners (snd (?rest ! i))) \<inter> set (headliners (snd (?rest ! j))) = {}"
      using Cons.IH [of ?G'] by blast+
    have one: "\<forall>k < length ((sid, ?d) # ?rest).
        set (headliners (snd (((sid, ?d) # ?rest) ! k))) \<inter> G = {}"
    proof (intro allI impI)
      fix k assume k: "k < length ((sid, ?d) # ?rest)"
      show "set (headliners (snd (((sid, ?d) # ?rest) ! k))) \<inter> G = {}"
      proof (cases k)
        case 0 then show ?thesis using d by simp
      next
        case (Suc k')
        then have "set (headliners (snd (?rest ! k'))) \<inter> ?G' = {}" using k ih1 by simp
        then show ?thesis using Suc g by auto
      qed
    qed
    have two: "\<forall>i j. i < j \<and> j < length ((sid, ?d) # ?rest) \<longrightarrow>
        set (headliners (snd (((sid, ?d) # ?rest) ! i)))
        \<inter> set (headliners (snd (((sid, ?d) # ?rest) ! j))) = {}"
    proof (intro allI impI)
      fix i j assume ij: "i < j \<and> j < length ((sid, ?d) # ?rest)"
      then obtain j' where j': "j = Suc j'" "j' < length ?rest" by (cases j) auto
      show "set (headliners (snd (((sid, ?d) # ?rest) ! i)))
        \<inter> set (headliners (snd (((sid, ?d) # ?rest) ! j))) = {}"
      proof (cases i)
        case 0
        have "set (headliners (snd (?rest ! j'))) \<inter> ?G' = {}" using j' ih1 by simp
        then show ?thesis using 0 j' g by auto
      next
        case (Suc i')
        then have "i' < j'" using ij j' by simp
        then show ?thesis using Suc j' ih2 by simp
      qed
    qed
    show ?thesis unfolding eq using one two by blast
  qed
qed

lemma push_unseen_distinct:
  assumes "distinct (map full_name repos)" and "set (map full_name repos) \<subseteq> seen"
  shows "distinct (map full_name (snd (push_unseen xs (seen, repos))))"
  using assms
proof (induction xs arbitrary: seen repos)
  case Nil
  then show ?case by simp
next
  case (Cons r rest)
  show ?case
  proof (cases "full_name r \<in> seen")
    case True
    then show ?thesis using Cons by simp
  next
    case False
    have "distinct (map full_name (repos @ [r]))" using False Cons.prems by auto
    moreover have "set (map full_name (repos @ [r])) \<subseteq> insert (full_name r) seen"
      using Cons.prems by auto
    ultimately show ?thesis using False Cons.IH by simp
  qed
qed

lemma fetchSectionRepos_distinct: "distinct (map full_name (fetchSectionRepos gh q))"
  by (simp add: fetchSectionRepos_def Let_def push_unseen_distinct)

lemma diversity_pass_distinct:
  assumes "distinct (map full_name (promoted @ overflow @ rs))"
  shows "distinct (map full_name
           (fst (diversity_pass tot cap rs promoted overflow langCount)
            @ snd (diversity_pass tot cap rs promoted overflow langCount)))"
  using assms
proof (induction rs arbitrary: promoted overflow langCount)
  case Nil
  then show ?case by simp
next
  case (Cons repo rest)
  have a: "distinct (map full_name ((promoted @ [repo]) @ overflow @ rest))"
    using Cons.prems by auto
  have b: "distinct (map full_name (promoted @ (overflow @ [repo]) @ rest))"
    using Cons.prems by auto
  show ?case
    using Cons.IH [OF a] Cons.IH [OF b]
    by (simp add: Let_def split: js_count.splits)
qed

lemma quickHits_apart_from_promoted:
  assumes "distinct (map full_name xs)"
  shows "set (map full_name (quickHits (categorizeDiverseForSection xs b)))
         \<inter> set (map full_name (promoted_of (categorizeDiverseForSection xs b))) = {}"
proof (cases "xs = []")
  case True
  then show ?thesis by (simp add: categorizeDiverseForSection_def)
next
  case False
  obtain p ov where c: "capped_pass xs b = (p, ov)" by (cases "capped_pass xs b")
  obtain p' ov' where po: "promoted_and_overflow xs b = (p', ov')"
    by (cases "promoted_and_overflow xs b")
  have "distinct (map full_name (p @ ov))"
    using diversity_pass_distinct [of "[]" "[]" xs "1 + b_secondary b"
        "maxPerLang (1 + b_secondary b) xs" Map.empty] assms c
    by (simp add: capped_pass_def Let_def)
  then have d0: "set (map full_name ov) \<inter> set (map full_name p) = {}" by auto
  have d: "set (map full_name ov') \<inter> set (map full_name p') = {}"
  proof (cases "int (length p) < 1 + b_secondary b")
    case True
    then show ?thesis using po c by (auto simp: promoted_and_overflow_def Let_def)
  next
    case False
    then have "p' = p" "ov' = ov" using po c by (auto simp: promoted_and_overflow_def Let_def)
    then show ?thesis using d0 by simp
  qed
  have q: "set (quickHits (categorizeDiverseForSection xs b)) \<subseteq> set ov'"
    using False po set_take_subset
    by (auto simp: categorizeDiverseForSection_def slice0_def Let_def dest: in_set_takeD)
  have "promoted_of (categorizeDiverseForSection xs b) = p'"
    using promoted_of_categorize [OF False, of b] po by simp
  then show ?thesis using d q by auto
qed

lemma sort_by_score_desc_names:
  "distinct (map full_name (sort_by_score_desc rs)) = distinct (map full_name rs)"
  by (simp add: sort_by_score_desc_def distinct_map)

lemma name_toQuickHit [simp]: "name (toQuickHit r) = full_name r"
  by (simp add: toQuickHit_def)

lemma fetchAndEnrichSection_quickHits:
  "set (map name (quickHits (fst (fetchAndEnrichSection gh q b G recent now))))
   \<inter> snd (fetchAndEnrichSection gh q b G recent now) = {}"
proof -
  let ?filtered = "filter (\<lambda>r. full_name r \<notin> G) (fetchSectionRepos gh q)"
  let ?opts = "\<lparr> opt_now = Some now, opt_recentRepoNames = Some recent \<rparr>"
  let ?scored = "sort_by_score_desc (map (with_score ?opts now) ?filtered)"
  let ?alloc = "categorizeDiverseForSection ?scored b"
  show ?thesis
  proof (cases "?filtered = []")
    case True
    then show ?thesis by (simp add: fetchAndEnrichSection_def Let_def)
  next
    case False
    have "distinct (map full_name ?filtered)"
      using fetchSectionRepos_distinct [of gh q] by (simp add: distinct_map_filter)
    then have "distinct (map full_name (map (with_score ?opts now) ?filtered))"
      by (simp add: comp_def)
    then have dist: "distinct (map full_name ?scored)"
      by (simp only: sort_by_score_desc_names)
    have apart: "set (map full_name (quickHits ?alloc))
                 \<inter> set (map full_name (promoted_of ?alloc)) = {}"
      by (rule quickHits_apart_from_promoted [OF dist])
    have "set (quickHits ?alloc) \<subseteq> set ?scored"
    proof -
      have "set (quickHits ?alloc) \<subseteq> set (snd (promoted_and_overflow ?scored b))"
        by (auto simp: categorizeDiverseForSection_def slice0_def Let_def
            split: prod.splits if_splits dest: in_set_takeD)
      moreover have "set (snd (promoted_and_overflow ?scored b)) \<subseteq> set ?scored"
        using capped_pass_subset [of ?scored b]
        by (auto simp: promoted_and_overflow_def Let_def split: prod.splits if_splits)
      ultimately show ?thesis by blast
    qed
    then have notG: "set (map full_name (quickHits ?alloc)) \<inter> G = {}" by auto
    have qh: "map name (quickHits (fst (fetchAndEnrichSection gh q b G recent now)))
                = map full_name (quickHits ?alloc)"
      using False
      by (auto simp: fetchAndEnrichSection_def Let_def comp_def split: option.splits)
    have g: "snd (fetchAndEnrichSection gh q b G recent now)
               = G \<union> set (map full_name (promoted_of ?alloc))"
      using False
      by (auto simp: fetchAndEnrichSection_def Let_def split: option.splits)
    show ?thesis unfolding qh g using apart notG by blast
  qed
qed

text \<open>
  C1: in a run of \<open>fetchAllSections\<close> (front page first, then the topic sections in
  \<open>SECTION_ORDER\<close>), no name is a headliner (lead or secondary) of two different
  sections; and every call of \<open>fetchAndEnrichSection\<close> headlines only names outside the
  claimed set it is given (they are filtered out before scoring) and returns that set
  extended by exactly its own headliners' names; the names of its quick-hits are not in
  the returned set.
\<close>

theorem cross_section_dedup:
  assumes "fetchAllSections gh recent clock = Inr sections"
      and "i < j" and "j < length sections"
  shows "set (headliners (snd (sections ! i))) \<inter> set (headliners (snd (sections ! j))) = {}
         \<and> set (headliners (fst (fetchAndEnrichSection gh q b G recent now))) \<inter> G = {}
         \<and> snd (fetchAndEnrichSection gh q b G recent now)
             = G \<union> set (headliners (fst (fetchAndEnrichSection gh q b G recent now)))
         \<and> set (map name (quickHits (fst (fetchAndEnrichSection gh q b G recent now))))
             \<inter> snd (fetchAndEnrichSection gh q b G recent now) = {}"
proof -
  obtain fp where fp: "fetchAndEnrich gh recent (clock ''frontPage'') = Inr fp"
    using assms(1) by (auto simp: fetchAllSections_def split: sum.splits)
  let ?G = "(case lead fp of None \<Rightarrow> {} | Some l \<Rightarrow> {name l}) \<union> set (map name (secondary fp))"
  let ?rest = "fetch_topic_sections gh recent clock SECTION_ORDER ?G"
  have secs: "sections = (''frontPage'', fp) # ?rest"
    using assms(1) fp by (simp add: fetchAllSections_def Let_def)
  have G: "set (headliners fp) = ?G"
    by (auto simp: headliners_def promoted_of_def split: option.splits)
  obtain j' where j': "j = Suc j'" "j' < length ?rest"
    using assms(2,3) secs by (cases j) auto
  have "set (headliners (snd (sections ! i))) \<inter> set (headliners (snd (sections ! j))) = {}"
  proof (cases i)
    case 0
    have "set (headliners (snd (?rest ! j'))) \<inter> ?G = {}"
      using fetch_topic_sections_disjoint [of gh recent clock SECTION_ORDER ?G] j' by blast
    then show ?thesis using 0 j' secs G by auto
  next
    case (Suc i')
    then have "i' < j'" using assms(2) j' by simp
    then have "set (headliners (snd (?rest ! i'))) \<inter> set (headliners (snd (?rest ! j'))) = {}"
      using fetch_topic_sections_disjoint [of gh recent clock SECTION_ORDER ?G] j' by blast
    then show ?thesis using Suc j' secs by simp
  qed
  then show ?thesis
    using fetchAndEnrichSection_headliners [of gh q b G recent now]
      fetchAndEnrichSection_quickHits [of gh q b G recent now]
    by blast
qed

text \<open>
  A run with overlapping pools: the front-page search returns \<open>a/x\<close> and \<open>a/y\<close>, the
  \<open>ai\<close> topic search returns \<open>a/x\<close> again and \<open>a/z\<close>; every other query is empty.
\<close>

definition candidate :: "string \<Rightarrow> string \<Rightarrow> gh_repo" where
  "candidate n l = baseRepo \<lparr> full_name := n, language := Some l \<rparr>"

definition overlapping_pools :: github where
  "overlapping_pools =
     \<lparr> search_topic = (\<lambda>t. if t = ''ai'' then [candidate ''a/x'' ''Rust'', candidate ''a/z'' ''Python''] else []),
       search_language = (\<lambda>l. []),
       resultA = Inr [candidate ''a/x'' ''Rust'', candidate ''a/y'' ''Go''],
       resultB = Inr [],
       ossInsight = [],
       release_of = (\<lambda>n. None) \<rparr>"

definition noon :: "string \<Rightarrow> int" where
  "noon sid = 86400000"

definition overlapping_sections :: "(string \<times> section_data) list" where
  "overlapping_sections =
     [(''frontPage'', \<lparr> lead = Some (enrichRepo (candidate ''a/x'' ''Rust'')),
                        secondary = [enrichRepo (candidate ''a/y'' ''Go'')], quickHits = [] \<rparr>),
      (''ai'', \<lparr> lead = Some (enrichRepo (candidate ''a/z'' ''Python'')), secondary = [], quickHits = [] \<rparr>),
      (''robotics'', \<lparr> lead = None, secondary = [], quickHits = [] \<rparr>),
      (''cyber'', \<lparr> lead = None, secondary = [], quickHits = [] \<rparr>),
      (''systems'', \<lparr> lead = None, secondary = [], quickHits = [] \<rparr>),
      (''diy'', \<lparr> lead = None, secondary = [], quickHits = [] \<rparr>)]"

lemma candidate_score:
  "scoreRepo (candidate n l) \<lparr> opt_now = Some 86400000, opt_recentRepoNames = Some {} \<rparr> 86400000 = 1 / 4"
  by (simp add: scoreRepo_def candidate_def baseRepo_def effective_now_def effective_recent_def
      velocityScore_def recencyScore_def releaseScore_def engagementScore_def)

lemma front: "fetchAndEnrich overlapping_pools {} 86400000 = Inr (snd (overlapping_sections ! 0))"
  apply (simp add: fetchAndEnrich_def fetchTrending_def overlapping_pools_def Let_def 
      with_score_def sort_by_score_desc_def candidate_score gh_repo.defs categorizeDiverse_def)
  apply (simp add: scoreRepo_def candidate_def baseRepo_def effective_now_def effective_recent_def
      velocityScore_def recencyScore_def releaseScore_def engagementScore_def Let_def
     categorizeDiverseForSection_def
      promoted_and_overflow_def capped_pass_def maxPerLang_def langCount_get_def
      object_prototype_keys_def lang_of_def overlapping_sections_def enrichRepo_def slice0_def)
  done


lemma ai_section:
  "fetchAndEnrichSection overlapping_pools
     \<lparr> topics = [''ai'', ''machine-learning'', ''deep-learning'', ''llm'',
            ''gpt'', ''neural-network'', ''nlp'', ''computer-vision'', ''generative-ai'',
            ''transformers''], languages = [''Jupyter Notebook''] \<rparr>
     \<lparr> b_secondary = 3, b_quickHits = 5 \<rparr> {''a/x'', ''a/y''} {} 86400000
   = (snd (overlapping_sections ! 1), {''a/x'', ''a/y'', ''a/z''})"
  apply (simp add: fetchAndEnrichSection_def fetchSectionRepos_def overlapping_pools_def Let_def
      with_score_def sort_by_score_desc_def gh_repo.defs)
  apply (simp add: scoreRepo_def candidate_def baseRepo_def effective_now_def effective_recent_def
      velocityScore_def recencyScore_def releaseScore_def engagementScore_def Let_def
      categorizeDiverseForSection_def promoted_of_def
      promoted_and_overflow_def capped_pass_def maxPerLang_def langCount_get_def
      object_prototype_keys_def lang_of_def overlapping_sections_def enrichRepo_def slice0_def)
  done

lemma empty_section:
  assumes "''ai'' \<notin> set (take 3 ts)"
  shows "fetchAndEnrichSection overlapping_pools \<lparr> topics = ts, languages = ls \<rparr> b G {} n
           = (\<lparr> lead = None, secondary = [], quickHits = [] \<rparr>, G)"
proof -
  have a: "concat (map (search_topic overlapping_pools) (take 3 ts)) = []"
    using assms by (auto simp: overlapping_pools_def)
  have b: "concat (map (search_language overlapping_pools) ls) = []"
    by (simp add: overlapping_pools_def)
  have "fetchSectionRepos overlapping_pools \<lparr> topics = ts, languages = ls \<rparr> = []"
    by (simp add: fetchSectionRepos_def a b)
  then show ?thesis by (simp add: fetchAndEnrichSection_def)
qed

lemma all_sections:
  "fetchAllSections overlapping_pools {} noon = Inr overlapping_sections"
proof -
  have g: "(case lead (snd (overlapping_sections ! 0)) of None \<Rightarrow> {} | Some l \<Rightarrow> {name l})
           \<union> set (map name (secondary (snd (overlapping_sections ! 0)))) = {''a/x'', ''a/y''}"
    by (auto simp: overlapping_sections_def enrichRepo_def candidate_def)
  have t: "fetch_topic_sections overlapping_pools {} noon SECTION_ORDER {''a/x'', ''a/y''}
             = tl overlapping_sections"
    by (simp add: SECTION_ORDER_def SECTIONS_def noon_def ai_section empty_section
        overlapping_sections_def)
  have h: "(''frontPage'', snd (overlapping_sections ! 0)) # tl overlapping_sections
             = overlapping_sections"
    by (simp add: overlapping_sections_def)
  show ?thesis
    by (simp add: fetchAllSections_def noon_def front g t h Let_def del: set_map)
qed

theorem cross_section_dedup_witness:
  "fetchAllSections overlapping_pools {} noon = Inr overlapping_sections
   \<and> (0::nat) < 1 \<and> 1 < length overlapping_sections
   \<and> headliners (snd (overlapping_sections ! 0)) = [''a/x'', ''a/y'']
   \<and> headliners (snd (overlapping_sections ! 1)) = [''a/z'']
   \<and> set (headliners (snd (overlapping_sections ! 0)))
       \<inter> set (headliners (snd (overlapping_sections ! 1))) = {}"
proof -
  have l: "1 < length overlapping_sections" by (simp add: overlapping_sections_def)
  have a: "headliners (snd (overlapping_sections ! 0)) = [''a/x'', ''a/y'']"
    by (simp add: overlapping_sections_def headliners_def promoted_of_def candidate_def)
  have b: "headliners (snd (overlapping_sections ! 1)) = [''a/z'']"
    by (simp add: overlapping_sections_def headliners_def promoted_of_def candidate_def)
  show ?thesis
    using all_sections l a b cross_section_dedup [OF all_sections zero_less_one l]
    by blast
qed

section \<open>Article parsing (src/xai.js)\<close>

text \<open>
  Text is a list of code units below 256. \<open>\s\<close> and \<open>trim\<close> use the same set of
  white space (tab, line feed, vertical tab, form feed, carriage return, space, no-break
  space); \<open>.\<close> matches everything but the line terminators.
\<close>

definition is_space :: "char \<Rightarrow> bool" where
  "is_space c =
     (c \<in> set [CHR 0x09, CHR 0x0A, CHR 0x0B, CHR 0x0C, CHR 0x0D, CHR 0x20, CHR 0xA0])"

definition is_line_terminator :: "char \<Rightarrow> bool" where
  "is_line_terminator c = (c = CHR 0x0A \<or> c = CHR 0x0D)"

definition trim :: "string \<Rightarrow> string" where
  "trim s = rev (dropWhile is_space (rev (dropWhile is_space s)))"

fun starts_with :: "string \<Rightarrow> string \<Rightarrow> bool" where
  "starts_with s [] = True"
| "starts_with [] (p # ps) = False"
| "starts_with (c # cs) (p # ps) = (c = p \<and> starts_with cs ps)"

text \<open>\<open>lines.join("\n")\<close>, as the unit tests build their inputs.\<close>

fun join_lines :: "string list \<Rightarrow> string" where
  "join_lines [] = []"
| "join_lines [l] = l"
| "join_lines (l # ls) = l @ CHR 0x0A # join_lines ls"

text \<open>
  The tail \<open>\s*(.+)\<close> of the headline and subheadline patterns, run on the text that
  follows a marker: the capture and the text left after the match, or no match.
  \<open>\s*\<close> is greedy, so the capture starts at the first character that is not white
  space and runs to the end of its line. When only white space follows, \<open>\s*\<close> gives
  characters back until \<open>.\<close> can take one: the last of them that is not a line
  terminator, which is then the whole capture.
\<close>

definition field_value :: "string \<Rightarrow> (string \<times> string) option" where
  "field_value s =
     (let rest = dropWhile is_space s in
      if rest \<noteq> [] then
        Some (takeWhile (\<lambda>c. \<not> is_line_terminator c) rest,
              dropWhile (\<lambda>c. \<not> is_line_terminator c) rest)
      else
        (let kept = rev (dropWhile is_line_terminator (rev s)) in
         if kept = [] then None else Some ([last kept], drop (length kept) s)))"

lemma field_value_shorter:
  assumes "field_value s = Some (cap, rest)"
  shows "length rest < length s"
proof (cases "dropWhile is_space s = []")
  case True
  let ?kept = "rev (dropWhile is_line_terminator (rev s))"
  have "?kept \<noteq> []" and "rest = drop (length ?kept) s"
    using assms True by (auto simp: field_value_def Let_def split: if_splits)
  moreover have "length ?kept \<le> length s"
    using length_dropWhile_le [of is_line_terminator "rev s"] by simp
  ultimately show ?thesis by (cases ?kept) auto
next
  case False
  let ?r = "dropWhile is_space s"
  have r: "rest = dropWhile (\<lambda>c. \<not> is_line_terminator c) ?r"
    using assms False by (auto simp: field_value_def Let_def)
  have "\<not> is_space (hd ?r)" using False hd_dropWhile by blast
  then have "\<not> is_line_terminator (hd ?r)"
    by (auto simp: is_space_def is_line_terminator_def)
  then have "length (dropWhile (\<lambda>c. \<not> is_line_terminator c) ?r) < length ?r"
    using False by (cases ?r) (auto simp: le_imp_less_Suc length_dropWhile_le)
  moreover have "length ?r \<le> length s" by (rule length_dropWhile_le)
  ultimately show ?thesis using r by simp
qed

text \<open>
  All captures of \<open>/MARKER\s*(.+)/g\<close>, left to right: a match at the current position
  moves the scan to its end, a failed attempt moves it one character on.
\<close>

function (sequential) marker_matches :: "string \<Rightarrow> string \<Rightarrow> string list" where
  "marker_matches marker [] = []"
| "marker_matches marker (c # cs) =
     (case (if starts_with (c # cs) marker
            then field_value (drop (length marker) (c # cs)) else None) of
        Some (cap, rest) \<Rightarrow> cap # marker_matches marker rest
      | None \<Rightarrow> marker_matches marker cs)"
  by pat_completeness auto
termination
proof (relation "measure (\<lambda>(marker, s). length s)")
  show "wf (measure (\<lambda>(marker, s). length s))" by simp
next
  fix marker :: string and c cs x2 cap rest
  assume "(if starts_with (c # cs) marker
           then field_value (drop (length marker) (c # cs)) else None) = Some x2"
     and "(cap, rest) = x2"
  then have "field_value (drop (length marker) (c # cs)) = Some (cap, rest)"
    by (simp split: if_splits)
  from field_value_shorter [OF this]
  show "((marker, rest), marker, c # cs) \<in> measure (\<lambda>(marker, s). length s)" by simp
next
  fix marker :: string and c :: char and cs :: string
  show "((marker, cs), marker, c # cs) \<in> measure (\<lambda>(marker, s). length s)" by simp
qed

text \<open>
  All captures of \<open>/(?:^|\n)\bHEADLINE:\s*(.+)/g\<close>. Without the \<open>m\<close> flag \<open>^\<close> holds at
  index 0 only. \<open>\b\<close> stands between the start of the text or a line feed and the letter
  \<open>H\<close>, where it always holds.
\<close>

function (sequential) headline_matches :: "bool \<Rightarrow> string \<Rightarrow> string list" where
  "headline_matches at_start [] = []"
| "headline_matches at_start (c # cs) =
     (case (if at_start \<and> starts_with (c # cs) ''HEADLINE:''
            then field_value (drop 9 (c # cs))
            else if c = CHR 0x0A \<and> starts_with cs ''HEADLINE:''
            then field_value (drop 9 cs) else None) of
        Some (cap, rest) \<Rightarrow> cap # headline_matches False rest
      | None \<Rightarrow> headline_matches False cs)"
  by pat_completeness auto
termination
proof (relation "measure (\<lambda>(at_start, s). length s)")
  show "wf (measure (\<lambda>(at_start :: bool, s :: string). length s))" by simp
next
  fix at_start :: bool and c cs x2 cap rest
  assume "(if at_start \<and> starts_with (c # cs) ''HEADLINE:''
           then field_value (drop 9 (c # cs))
           else if c = CHR 0x0A \<and> starts_with cs ''HEADLINE:''
           then field_value (drop 9 cs) else None) = Some x2"
     and "(cap, rest) = x2"
  then have "field_value (drop 9 (c # cs)) = Some (cap, rest)
             \<or> field_value (drop 9 cs) = Some (cap, rest)"
    by (simp split: if_splits)
  then show "((False, rest), at_start, c # cs) \<in> measure (\<lambda>(at_start, s). length s)"
    using field_value_shorter [of _ cap rest] by fastforce
next
  fix at_start :: bool and c :: char and cs :: string
  show "((False, cs), at_start, c # cs) \<in> measure (\<lambda>(at_start, s). length s)" by simp
qed

text \<open>
  \<open>/BUILDERS_TAKE:\s*([\s\S]*?)$/g\<close>: \<open>$\<close> holds at the end of the text only, so the
  lazy group of the leftmost match grows to the end of the text, and no second match
  can start after it.
\<close>

fun find_first :: "string \<Rightarrow> string \<Rightarrow> string option" where
  "find_first marker [] = None"
| "find_first marker (c # cs) =
     (if starts_with (c # cs) marker then Some (drop (length marker) (c # cs))
      else find_first marker cs)"

definition buildersTake_matches :: "string \<Rightarrow> string list" where
  "buildersTake_matches text =
     (case find_first ''BUILDERS_TAKE:'' text of
        None \<Rightarrow> []
      | Some rest \<Rightarrow> [dropWhile is_space rest])"

definition lastMatch :: "string list \<Rightarrow> string option" where
  "lastMatch matches = (if matches = [] then None else Some (last matches))"

text \<open>
  The start indices of the matches of a literal marker. Neither \<open>BODY:\<close> nor
  \<open>BUILDERS_TAKE:\<close> can overlap itself, so the scan looks at every position.
\<close>

fun match_indices :: "string \<Rightarrow> nat \<Rightarrow> string \<Rightarrow> nat list" where
  "match_indices marker i [] = []"
| "match_indices marker i (c # cs) =
     (if starts_with (c # cs) marker then i # match_indices marker (Suc i) cs
      else match_indices marker (Suc i) cs)"

text \<open>\<open>m?.[1]?.trim() || null\<close> and \<open>a || b\<close> on strings: the empty string is falsy.\<close>

definition trimmed_capture :: "string option \<Rightarrow> string option" where
  "trimmed_capture m =
     (case m of
        None \<Rightarrow> None
      | Some cap \<Rightarrow> (let t = trim cap in if t = [] then None else Some t))"

definition truthy :: "string option \<Rightarrow> bool" where
  "truthy v = (case v of None \<Rightarrow> False | Some s \<Rightarrow> s \<noteq> [])"

definition or_else :: "string option \<Rightarrow> string \<Rightarrow> string" where
  "or_else v d = (case v of None \<Rightarrow> d | Some s \<Rightarrow> if s = [] then d else s)"

definition parseHeadline :: "string \<Rightarrow> string option" where
  "parseHeadline text = trimmed_capture (lastMatch (headline_matches True text))"

definition parseSubheadline :: "string \<Rightarrow> string option" where
  "parseSubheadline text = trimmed_capture (lastMatch (marker_matches ''SUBHEADLINE:'' text))"

definition parseBuildersTake :: "string \<Rightarrow> string option" where
  "parseBuildersTake text = trimmed_capture (lastMatch (buildersTake_matches text))"

definition parseBody :: "string \<Rightarrow> string option" where
  "parseBody text =
     (let bodyMarkers = match_indices ''BODY:'' 0 text in
      if bodyMarkers = [] then None
      else
        (let idx = last bodyMarkers;
             lastBodyStart = idx + 5 + length (takeWhile is_space (drop (idx + 5) text));
             btMarkers = match_indices ''BUILDERS_TAKE:'' 0 text;
             lastBtStart = (if btMarkers = [] then length text else last btMarkers)
         in if lastBodyStart < lastBtStart
            then Some (trim (take (lastBtStart - lastBodyStart) (drop lastBodyStart text)))
            else None))"

record parsed =
  headline :: string
  subheadline :: string
  body :: string
  buildersTake :: string
  isFallback :: bool

text \<open>\<open>failed = !headline || !body\<close>, written as the negated conjunction.\<close>

definition parseArticle :: "string \<Rightarrow> repo_info option \<Rightarrow> parsed" where
  "parseArticle text repo =
     (let headline = parseHeadline text;
          subheadline = or_else (parseSubheadline text) [];
          buildersTake = or_else (parseBuildersTake text) [];
          body = parseBody text;
          failed = (\<not> (truthy headline \<and> truthy body))
      in \<lparr> headline = or_else headline
                (case repo of
                   Some r \<Rightarrow> take 80 (shortName r @ '': '' @ description r)
                 | None \<Rightarrow> ''Untitled''),
           subheadline = or_else (Some subheadline)
                (case repo of Some r \<Rightarrow> description r | None \<Rightarrow> []),
           body = or_else body (case repo of Some r \<Rightarrow> description r | None \<Rightarrow> text),
           buildersTake = buildersTake,
           isFallback = failed \<rparr>)"

section \<open>Article generation (src/xai.js)\<close>

text \<open>
  The X.com sentiment that \<open>generateAllContent\<close> attaches to an article afterwards, and
  an item of the X Pulse section (src/x-sentiment.js).
\<close>

record x_sentiment =
  sentiment :: string
  blurb :: string
  postCount :: nat
  topPost :: "string option"
  failed :: bool

record pulse_item =
  topic :: string
  pulse_blurb :: string
  pulse_sentiment :: string
  handles :: string

record article = parsed +
  repo :: repo_info
  xSentiment :: "x_sentiment option"

text \<open>\<open>{ ...parseArticle(raw, repo), repo }\<close>\<close>

definition with_repo :: "parsed \<Rightarrow> repo_info \<Rightarrow> article" where
  "with_repo p r = parsed.extend p \<lparr> repo = r, xSentiment = None \<rparr>"

text \<open>
  \<open>generateArticleWithRetry\<close>. Its arguments \<open>client\<close>, \<open>model\<close>, \<open>promptFn\<close>,
  \<open>maxTokens\<close> and \<open>llmLimit\<close> only reach the backend call, so they are folded into
  \<open>chat\<close>: \<open>chat i\<close> is the outcome of the \<open>i\<close>-th evaluation of
  \<open>await llmLimit(() => chat(client, model, promptFn(repo), maxTokens))\<close> for this
  repository, the text returned or the exception raised. The second component of
  the result counts the backend calls made.
\<close>

definition generateArticleWithRetry ::
  "(nat \<Rightarrow> error + string) \<Rightarrow> repo_info \<Rightarrow> article \<times> nat" where
  "generateArticleWithRetry chat r =
     (case chat 0 of
        Inl err \<Rightarrow> (with_repo (parseArticle [] (Some r)) r, 1)
      | Inr raw \<Rightarrow>
          (let article = with_repo (parseArticle raw (Some r)) r in
           if \<not> isFallback article then (article, 1)
           else
             (case chat 1 of
                Inl err \<Rightarrow> (with_repo (parseArticle [] (Some r)) r, 2)
              | Inr retryRaw \<Rightarrow> (with_repo (parseArticle retryRaw (Some r)) r, 2))))"

text \<open>A quick-hit of the output: the repository fields and, once annotated, a summary.\<close>

record quick_hit =
  hit_repo :: repo_info
  summary :: "string option"

subsection \<open>\<open>parseQuickHits\<close>\<close>

text \<open>\<open>text.split("\n")\<close>\<close>

fun split_lines :: "string \<Rightarrow> string list" where
  "split_lines [] = [[]]"
| "split_lines (c # cs) =
     (if c = CHR 0x0A then [] # split_lines cs
      else (case split_lines cs of l # ls \<Rightarrow> (c # l) # ls | [] \<Rightarrow> [[c]]))"

text \<open>The decimal digits of \<open>i + 1\<close> in the template literal.\<close>

fun decimal :: "nat \<Rightarrow> string" where
  "decimal n =
     (if n < 10 then [char_of (48 + n)]
      else decimal (n div 10) @ [char_of (48 + n mod 10)])"

text \<open>
  \<open>line.replace(/^\d+\.\s*/, "").trim()\<close> on a line that starts with the digits of the
  ordinal and a dot: the digits, the dot and the white space after it are removed.
\<close>

definition parseQuickHits :: "string \<Rightarrow> repo_info list \<Rightarrow> quick_hit list" where
  "parseQuickHits text repos =
     (let lines = filter (\<lambda>l. trim l \<noteq> []) (split_lines text) in
      map (\<lambda>(i, r).
             (let prefix = decimal (i + 1) @ ''.'' in
              case find (\<lambda>l. starts_with l prefix) lines of
                Some line \<Rightarrow>
                  \<lparr> hit_repo = r,
                    summary = Some (trim (dropWhile is_space (drop (length prefix) line))) \<rparr>
              | None \<Rightarrow> \<lparr> hit_repo = r, summary = Some (description r) \<rparr>))
          (enumerate 0 repos))"

subsection \<open>\<open>generateSectionContent\<close>\<close>

record section_content = "(article, quick_hit) slots" +
  isEmpty :: bool
  pulseItems :: "pulse_item list option"

text \<open>\<open>{ ...article.repo, summary: article.repo.description }\<close>\<close>

definition demoted_hit :: "article \<Rightarrow> quick_hit" where
  "demoted_hit a = \<lparr> hit_repo = repo a, summary = Some (description (repo a)) \<rparr>"

text \<open>The loop over \<open>allSecondary\<close> with its two accumulators.\<close>

fun demote_fallbacks ::
  "article list \<Rightarrow> article list \<times> quick_hit list \<Rightarrow> article list \<times> quick_hit list" where
  "demote_fallbacks [] (goodSecondary, demotedToQuickHits) = (goodSecondary, demotedToQuickHits)"
| "demote_fallbacks (a # rest) (goodSecondary, demotedToQuickHits) =
     (if isFallback a
      then demote_fallbacks rest (goodSecondary, demotedToQuickHits @ [demoted_hit a])
      else demote_fallbacks rest (goodSecondary @ [a], demotedToQuickHits))"

text \<open>
  The articles that the fan-out generates: slot 0 is the lead, slot \<open>i + 1\<close> the
  \<open>i\<close>-th secondary, and \<open>slotChat k\<close> holds the backend's outcomes for slot \<open>k\<close>
  in the order that slot receives them, whatever the interleaving of the slots.
\<close>

definition generated_lead :: "(nat \<Rightarrow> nat \<Rightarrow> error + string) \<Rightarrow> repo_info \<Rightarrow> article" where
  "generated_lead slotChat leadRepo = fst (generateArticleWithRetry (slotChat 0) leadRepo)"

definition generated_secondary ::
  "(nat \<Rightarrow> nat \<Rightarrow> error + string) \<Rightarrow> repo_info list \<Rightarrow> article list" where
  "generated_secondary slotChat rs =
     map (\<lambda>(i, r). fst (generateArticleWithRetry (slotChat (Suc i)) r)) (enumerate 0 rs)"

text \<open>
  The post-processing after generation, on the generated articles and the annotated
  quick-hits. In \<open>generateSectionContent\<close>, \<open>quickHitsRaw\<close> is the outcome of the one
  batched quick-hit call, made only when the section has quick-hits; its exception is
  not caught and fails the section.
\<close>

definition finalize_section ::
  "article \<Rightarrow> article list \<Rightarrow> quick_hit list \<Rightarrow> section_content" where
  "finalize_section leadArticle allSecondary annotated =
     (let (goodSecondary, demotedToQuickHits) = demote_fallbacks allSecondary ([], []) in
      case (isFallback leadArticle, goodSecondary) of
        (True, g # gs) \<Rightarrow>
          \<lparr> lead = Some g, secondary = gs,
            quickHits = annotated @ (demotedToQuickHits @ [demoted_hit leadArticle]),
            isEmpty = False, pulseItems = None \<rparr>
      | _ \<Rightarrow>
          \<lparr> lead = Some leadArticle, secondary = goodSecondary,
            quickHits = annotated @ demotedToQuickHits,
            isEmpty = False, pulseItems = None \<rparr>)"

definition generateSectionContent ::
  "section_data \<Rightarrow> (nat \<Rightarrow> nat \<Rightarrow> error + string) \<Rightarrow> error + string
     \<Rightarrow> error + section_content" where
  "generateSectionContent sectionData slotChat quickHitsRaw =
     (case lead sectionData of
        None \<Rightarrow>
          Inr \<lparr> lead = None, secondary = [],
                quickHits = map (\<lambda>r. \<lparr> hit_repo = r, summary = None \<rparr>) (quickHits sectionData),
                isEmpty = True, pulseItems = None \<rparr>
      | Some leadRepo \<Rightarrow>
          (let leadArticle = generated_lead slotChat leadRepo;
               allSecondary = generated_secondary slotChat (secondary sectionData)
           in if quickHits sectionData = []
              then Inr (finalize_section leadArticle allSecondary [])
              else
                (case quickHitsRaw of
                   Inl err \<Rightarrow> Inl err
                 | Inr raw \<Rightarrow>
                     Inr (finalize_section leadArticle allSecondary
                            (parseQuickHits raw (quickHits sectionData))))))"

subsection \<open>\<open>generateAllContent\<close>\<close>

text \<open>
  The text backend of a run: per section, the outcomes of the article slots and of the
  quick-hit call; the sentiment lookup and the X Pulse fetch catch their own failures.
\<close>

record backend =
  articleChats :: "string \<Rightarrow> nat \<Rightarrow> nat \<Rightarrow> error + string"
  quickHitChat :: "string \<Rightarrow> error + string"
  fetchXSentimentForRepo :: "repo_info \<Rightarrow> x_sentiment"
  fetchXPulse :: "pulse_item list"
  mastheadQuote :: string

text \<open>The first loop over \<open>SECTION_ORDER\<close>; an exception leaves the run.\<close>

fun generate_sections ::
  "(string \<Rightarrow> section_data option) \<Rightarrow> backend \<Rightarrow> string list
     \<Rightarrow> error + (string \<times> section_content) list" where
  "generate_sections fetched be [] = Inr []"
| "generate_sections fetched be (sid # ids) =
     (if (case map_of SECTIONS sid of Some config \<Rightarrow> isXPulse config | None \<Rightarrow> False)
      then generate_sections fetched be ids
      else
        (case (case fetched sid of
                 None \<Rightarrow>
                   Inr \<lparr> lead = None, secondary = [], quickHits = [], isEmpty = True,
                         pulseItems = None \<rparr>
               | Some sectionData \<Rightarrow>
                   generateSectionContent sectionData (articleChats be sid)
                     (quickHitChat be sid)) of
           Inl err \<Rightarrow> Inl err
         | Inr content \<Rightarrow>
             (case generate_sections fetched be ids of
                Inl err \<Rightarrow> Inl err
              | Inr rest \<Rightarrow> Inr ((sid, content) # rest))))"

text \<open>The second loop writes \<open>xSentiment\<close> into the articles of the non-empty sections.\<close>

definition annotate :: "backend \<Rightarrow> section_content \<Rightarrow> section_content" where
  "annotate be section =
     (if isEmpty section then section
      else section
        \<lparr> lead := map_option
             (\<lambda>a. a \<lparr> xSentiment := Some (fetchXSentimentForRepo be (repo a)) \<rparr>) (lead section),
          secondary := map
             (\<lambda>a. a \<lparr> xSentiment := Some (fetchXSentimentForRepo be (repo a)) \<rparr>)
             (secondary section) \<rparr>)"

record edition =
  sections :: "(string \<times> section_content) list"
  tagline :: string

definition generateAllContent ::
  "(string \<Rightarrow> section_data option) \<Rightarrow> backend \<Rightarrow> error + edition" where
  "generateAllContent fetched be =
     (case generate_sections fetched be SECTION_ORDER of
        Inl err \<Rightarrow> Inl err
      | Inr result \<Rightarrow>
          (let result = map (\<lambda>(sid, section). (sid, annotate be section)) result;
               xPulse = \<lparr> lead = None, secondary = [], quickHits = [],
                          isEmpty = (length (fetchXPulse be) = 0),
                          pulseItems = Some (fetchXPulse be) \<rparr>
           in Inr \<lparr> sections = result @ [(''xPulse'', xPulse)],
                    tagline = mastheadQuote be \<rparr>))"

subsection \<open>Last-occurrence parsing\<close>

definition echoed_then_real :: string where
  "echoed_then_real = join_lines
     [''HEADLINE: [headline]'', ''BODY: [body]'', ''BUILDERS_TAKE: [advice]'',
      ''HEADLINE: Real'', ''BODY: Real body'', ''BUILDERS_TAKE: Real take'']"

text \<open>
  C6 (the code at the failing input): a backend that echoes the format before its real
  output. The headline and the body come from the last markers, but the builder's take
  runs from the first \<open>BUILDERS_TAKE:\<close> marker to the end of the text and swallows
  everything after it, the real take included.
\<close>

theorem buildersTake_runs_from_first_marker:
  "parseArticle echoed_then_real None
     = \<lparr> headline = ''Real'', subheadline = [], body = ''Real body'',
         buildersTake = join_lines [''[advice]'', ''HEADLINE: Real'', ''BODY: Real body'',
                                    ''BUILDERS_TAKE: Real take''],
         isFallback = False \<rparr>"
  by code_simp

text \<open>
  The regression example of the claim holds: \<open>HEADLINE:\<close> inside \<open>SUBHEADLINE:\<close> is
  not at the start of the text or of a line, so the headline is \<open>bar\<close>.
\<close>

lemma parseHeadline_regression:
  "parseHeadline (join_lines [''SUBHEADLINE: foo'', ''HEADLINE: bar'']) = Some ''bar''"
  by code_simp

lemma headline_not_taken_from_subheadline:
  "headline (parseArticle (join_lines [''SUBHEADLINE: foo'', ''HEADLINE: bar'']) r) = ''bar''"
  unfolding parseArticle_def Let_def parseHeadline_regression
  by (simp add: or_else_def)

subsection \<open>Retry and fallback\<close>

lemma parseArticle_empty:
  "parseArticle [] (Some r)
     = \<lparr> headline = take 80 (shortName r @ '': '' @ description r),
         subheadline = description r, body = description r, buildersTake = [],
         isFallback = True \<rparr>"
  by (simp add: parseArticle_def parseHeadline_def parseSubheadline_def parseBuildersTake_def
      parseBody_def buildersTake_matches_def lastMatch_def trimmed_capture_def truthy_def
      or_else_def)

lemma parseArticle_fields:
  "headline (parseArticle t (Some r))
     = or_else (parseHeadline t) (take 80 (shortName r @ '': '' @ description r))"
  "body (parseArticle t (Some r)) = or_else (parseBody t) (description r)"
  "buildersTake (parseArticle t (Some r)) = or_else (parseBuildersTake t) []"
  by (simp_all add: parseArticle_def Let_def)

lemma with_repo_sel [simp]:
  "repo (with_repo p r) = r"
  "xSentiment (with_repo p r) = None"
  "headline (with_repo p r) = headline p"
  "subheadline (with_repo p r) = subheadline p"
  "body (with_repo p r) = body p"
  "buildersTake (with_repo p r) = buildersTake p"
  "isFallback (with_repo p r) = isFallback p"
  by (simp_all add: with_repo_def parsed.defs)

definition backend_raises :: "(nat \<Rightarrow> error + string) \<Rightarrow> repo_info \<Rightarrow> bool" where
  "backend_raises chat r =
     (case chat 0 of
        Inl err \<Rightarrow> True
      | Inr raw \<Rightarrow> isFallback (parseArticle raw (Some r)) \<and> isl (chat 1))"

text \<open>
  C3 (amended): \<open>generateArticleWithRetry\<close> returns an article for its repository
  on every outcome of the backend, after one or two calls. When both the first text and
  the retry fail to parse, it has made exactly two calls and returns a fallback article
  in which every field the retry text yields keeps its parsed value and every other
  field takes its fallback (the headline \<open>"{shortName}: {description}"\<close> cut to 80
  characters, the body the description, the builder's take empty). When a backend call
  raises, the result is exactly that full fallback.
\<close>

theorem generateArticle_never_fails_outward:
  "repo (fst (generateArticleWithRetry chat r)) = r
   \<and> snd (generateArticleWithRetry chat r) \<in> {1, 2}
   \<and> (chat 0 = Inr t1 \<and> chat 1 = Inr t2
        \<and> isFallback (parseArticle t1 (Some r)) \<and> isFallback (parseArticle t2 (Some r))
       \<longrightarrow> snd (generateArticleWithRetry chat r) = 2
           \<and> isFallback (fst (generateArticleWithRetry chat r))
           \<and> headline (fst (generateArticleWithRetry chat r))
               = or_else (parseHeadline t2) (take 80 (shortName r @ '': '' @ description r))
           \<and> body (fst (generateArticleWithRetry chat r))
               = or_else (parseBody t2) (description r)
           \<and> buildersTake (fst (generateArticleWithRetry chat r))
               = or_else (parseBuildersTake t2) [])
   \<and> (backend_raises chat r
       \<longrightarrow> fst (generateArticleWithRetry chat r)
           = with_repo \<lparr> headline = take 80 (shortName r @ '': '' @ description r),
                         subheadline = description r, body = description r,
                         buildersTake = [], isFallback = True \<rparr> r)"
proof -
  have a: "repo (fst (generateArticleWithRetry chat r)) = r"
    by (simp add: generateArticleWithRetry_def Let_def split: sum.splits)
  have b: "snd (generateArticleWithRetry chat r) \<in> {1, 2}"
    by (simp add: generateArticleWithRetry_def Let_def split: sum.splits)
  have c: "chat 0 = Inr t1 \<and> chat 1 = Inr t2
        \<and> isFallback (parseArticle t1 (Some r)) \<and> isFallback (parseArticle t2 (Some r))
       \<longrightarrow> generateArticleWithRetry chat r = (with_repo (parseArticle t2 (Some r)) r, 2)"
    by (simp add: generateArticleWithRetry_def Let_def)
  have d: "backend_raises chat r
       \<longrightarrow> fst (generateArticleWithRetry chat r) = with_repo (parseArticle [] (Some r)) r"
    by (auto simp: backend_raises_def generateArticleWithRetry_def Let_def isl_def
        split: sum.splits)
  show ?thesis
    using a b c d by (simp add: parseArticle_fields parseArticle_empty)
qed

text \<open>The unit tests' \<open>badResponse()\<close> and \<open>makeRepo("broken")\<close>.\<close>

definition badResponse :: string where
  "badResponse = ''This is just unstructured rambling with no markers at all.''"

definition broken :: repo_info where
  "broken = \<lparr> name = ''org/broken'', shortName = ''broken'',
              description = ''Description of broken'', stars = 1000,
              languageName = ''JavaScript'' \<rparr>"

lemma badResponse_fields:
  "parseHeadline badResponse = None" "parseBody badResponse = None"
  "parseBuildersTake badResponse = None"
  by code_simp+

lemma badResponse_fallback: "isFallback (parseArticle badResponse (Some r))"
  by (simp add: parseArticle_def Let_def badResponse_fields truthy_def)

theorem generateArticle_never_fails_outward_witness:
  "isFallback (parseArticle badResponse (Some broken))
   \<and> snd (generateArticleWithRetry (\<lambda>i. Inr badResponse) broken) = 2
   \<and> isFallback (fst (generateArticleWithRetry (\<lambda>i. Inr badResponse) broken))
   \<and> repo (fst (generateArticleWithRetry (\<lambda>i. Inr badResponse) broken)) = broken
   \<and> headline (fst (generateArticleWithRetry (\<lambda>i. Inr badResponse) broken))
       = ''broken: Description of broken''
   \<and> body (fst (generateArticleWithRetry (\<lambda>i. Inr badResponse) broken))
       = ''Description of broken''
   \<and> buildersTake (fst (generateArticleWithRetry (\<lambda>i. Inr badResponse) broken)) = []
   \<and> backend_raises (\<lambda>i. Inl BackendError) broken
   \<and> isFallback (fst (generateArticleWithRetry (\<lambda>i. Inl BackendError) broken))
   \<and> headline (fst (generateArticleWithRetry (\<lambda>i. Inl BackendError) broken))
       = ''broken: Description of broken''"
proof -
  have f: "isFallback (parseArticle badResponse (Some broken))" by (rule badResponse_fallback)
  have r: "backend_raises (\<lambda>i. Inl BackendError) broken" by (simp add: backend_raises_def)
  show ?thesis
    using f r
      generateArticle_never_fails_outward
        [of "\<lambda>i. Inr badResponse" broken badResponse badResponse]
      generateArticle_never_fails_outward
        [of "\<lambda>i. Inl BackendError" broken badResponse badResponse]
    by (simp add: badResponse_fields or_else_def broken_def)
qed

text \<open>A text that fails to parse (no body) and still yields a headline and a take.\<close>

definition partial_markers :: string where
  "partial_markers = join_lines [''HEADLINE: Foo'', ''BUILDERS_TAKE: ship it'']"

lemma partial_markers_fields:
  "parseHeadline partial_markers = Some ''Foo''" "parseBody partial_markers = None"
  "parseBuildersTake partial_markers = Some ''ship it''"
  by code_simp+

text \<open>
  C3 (as stated, refuted): on that text at both attempts the returned article is a
  fallback after two calls, yet its headline is the parsed \<open>Foo\<close>, not the
  \<open>"{shortName}: {description}"\<close> one, and its builder's take is not empty.
\<close>

theorem fallback_keeps_parsed_fields:
  "isFallback (parseArticle partial_markers (Some broken))
   \<and> snd (generateArticleWithRetry (\<lambda>i. Inr partial_markers) broken) = 2
   \<and> isFallback (fst (generateArticleWithRetry (\<lambda>i. Inr partial_markers) broken))
   \<and> headline (fst (generateArticleWithRetry (\<lambda>i. Inr partial_markers) broken)) = ''Foo''
   \<and> take 80 (shortName broken @ '': '' @ description broken) \<noteq> ''Foo''
   \<and> buildersTake (fst (generateArticleWithRetry (\<lambda>i. Inr partial_markers) broken)) = ''ship it''"
proof -
  have f: "isFallback (parseArticle partial_markers (Some broken))"
    by (simp add: parseArticle_def Let_def partial_markers_fields truthy_def)
  have g: "generateArticleWithRetry (\<lambda>i. Inr partial_markers) broken
             = (with_repo (parseArticle partial_markers (Some broken)) broken, 2)"
    using f by (simp add: generateArticleWithRetry_def Let_def)
  have h: "headline (parseArticle partial_markers (Some broken)) = ''Foo''"
    and b: "buildersTake (parseArticle partial_markers (Some broken)) = ''ship it''"
    by (simp_all add: parseArticle_fields partial_markers_fields or_else_def)
  have n: "take 80 (shortName broken @ '': '' @ description broken) \<noteq> ''Foo''"
    by (simp add: broken_def)
  show ?thesis using f h b n by (simp add: g)
qed

subsection \<open>Demotion and promotion\<close>

lemma demote_fallbacks_filter:
  "demote_fallbacks xs (good, dem)
     = (good @ filter (\<lambda>a. \<not> isFallback a) xs, dem @ map demoted_hit (filter isFallback xs))"
  by (induction xs arbitrary: good dem) simp_all

lemma find_as_filter:
  "find P xs = (case filter P xs of [] \<Rightarrow> None | x # _ \<Rightarrow> Some x)"
  by (induction xs) simp_all

lemma finalize_section_promoted:
  assumes "isFallback leadArticle" and "find (\<lambda>a. \<not> isFallback a) allSecondary = Some g"
  shows "finalize_section leadArticle allSecondary hits
           = \<lparr> lead = Some g, secondary = tl (filter (\<lambda>a. \<not> isFallback a) allSecondary),
               quickHits = hits @ (map demoted_hit (filter isFallback allSecondary)
                                   @ [demoted_hit leadArticle]),
               isEmpty = False, pulseItems = None \<rparr>"
  using assms
  by (auto simp: finalize_section_def demote_fallbacks_filter find_as_filter split: list.splits)

lemma finalize_section_kept:
  assumes "\<not> isFallback leadArticle \<or> find (\<lambda>a. \<not> isFallback a) allSecondary = None"
  shows "finalize_section leadArticle allSecondary hits
           = \<lparr> lead = Some leadArticle,
               secondary = filter (\<lambda>a. \<not> isFallback a) allSecondary,
               quickHits = hits @ map demoted_hit (filter isFallback allSecondary),
               isEmpty = False, pulseItems = None \<rparr>"
  using assms
  by (auto simp: finalize_section_def demote_fallbacks_filter find_as_filter split: list.splits bool.splits)

lemma generated_repo [simp]: "repo (fst (generateArticleWithRetry chat r)) = r"
  by (simp add: generateArticleWithRetry_def Let_def split: sum.splits)

lemma generateSectionContent_Some:
  assumes "generateSectionContent sectionData slotChat quickHitsRaw = Inr content"
      and "lead sectionData = Some leadRepo"
  shows "\<exists>hits. content = finalize_section (generated_lead slotChat leadRepo)
                    (generated_secondary slotChat (secondary sectionData)) hits"
  using assms
  by (auto simp: generateSectionContent_def Let_def split: if_splits sum.splits)

text \<open>
  C4: when a section is returned and its generated lead article is a fallback, then, if
  a non-fallback secondary exists, the returned lead is the first such secondary (with
  its headline) and the original lead's repository is among the returned quick-hits with
  its description as summary; if none exists, the fallback lead is kept as the lead.
\<close>

theorem fallback_lead_promotion:
  assumes "generateSectionContent sectionData slotChat quickHitsRaw = Inr content"
      and "lead sectionData = Some leadRepo"
      and "isFallback (generated_lead slotChat leadRepo)"
  shows "case find (\<lambda>a. \<not> isFallback a) (generated_secondary slotChat (secondary sectionData)) of
           Some g \<Rightarrow>
             lead content = Some g
             \<and> map_option headline (lead content) = Some (headline g)
             \<and> \<lparr> hit_repo = leadRepo, summary = Some (description leadRepo) \<rparr>
                 \<in> set (quickHits content)
         | None \<Rightarrow> lead content = Some (generated_lead slotChat leadRepo)"
proof -
  let ?l = "generated_lead slotChat leadRepo"
  let ?s = "generated_secondary slotChat (secondary sectionData)"
  obtain hits where c: "content = finalize_section ?l ?s hits"
    using generateSectionContent_Some [OF assms(1,2)] by blast
  have d: "demoted_hit ?l = \<lparr> hit_repo = leadRepo, summary = Some (description leadRepo) \<rparr>"
    by (simp add: demoted_hit_def generated_lead_def)
  show ?thesis
  proof (cases "find (\<lambda>a. \<not> isFallback a) ?s")
    case None
    then show ?thesis using c finalize_section_kept [of ?l ?s hits] by simp
  next
    case (Some g)
    then show ?thesis
      using c d finalize_section_promoted [OF assms(3) Some, of hits] by simp
  qed
qed

text \<open>
  C5 (amended): in a returned section the secondary list holds no fallback article; every
  generated secondary that is a fallback is absent from it and is among the quick-hits
  with its repository's description as summary; and given two generated secondaries of
  which exactly one is a fallback, and a generated lead that is not a fallback, the
  returned secondary list has length 1 and the failed one's repository is among the
  quick-hits.
\<close>

theorem fallback_secondaries_demoted:
  assumes "generateSectionContent sectionData slotChat quickHitsRaw = Inr content"
      and "lead sectionData = Some leadRepo"
  shows "(\<forall>a \<in> set (secondary content). \<not> isFallback a)
         \<and> (\<forall>a \<in> set (generated_secondary slotChat (secondary sectionData)).
               isFallback a \<longrightarrow>
                 a \<notin> set (secondary content)
                 \<and> \<lparr> hit_repo = repo a, summary = Some (description (repo a)) \<rparr>
                     \<in> set (quickHits content))
         \<and> (\<not> isFallback (generated_lead slotChat leadRepo)
              \<and> generated_secondary slotChat (secondary sectionData) = [a1, a2]
              \<and> isFallback a1 \<noteq> isFallback a2
            \<longrightarrow> length (secondary content) = 1
                \<and> \<lparr> hit_repo = repo (if isFallback a1 then a1 else a2),
                      summary = Some (description (repo (if isFallback a1 then a1 else a2))) \<rparr>
                    \<in> set (quickHits content))"
proof -
  let ?l = "generated_lead slotChat leadRepo"
  let ?s = "generated_secondary slotChat (secondary sectionData)"
  let ?good = "filter (\<lambda>a. \<not> isFallback a) ?s"
  let ?dem = "map demoted_hit (filter isFallback ?s)"
  obtain hits where c: "content = finalize_section ?l ?s hits"
    using generateSectionContent_Some [OF assms] by blast
  have sec: "set (secondary content) \<subseteq> set ?good"
   and qh: "set ?dem \<subseteq> set (quickHits content)"
   and len: "\<not> isFallback ?l \<Longrightarrow> secondary content = ?good"
  proof -
    show "set (secondary content) \<subseteq> set ?good"
    proof (cases "isFallback ?l \<and> find (\<lambda>a. \<not> isFallback a) ?s \<noteq> None")
      case True
      then obtain g where "find (\<lambda>a. \<not> isFallback a) ?s = Some g" by auto
      then have "secondary content = tl ?good"
        using True c finalize_section_promoted [of ?l ?s g hits] by simp
      then show ?thesis by (metis list.set_sel(2) subsetI tl_Nil)
    next
      case False
      then show ?thesis using c finalize_section_kept [of ?l ?s hits] by auto
    qed
    show "set ?dem \<subseteq> set (quickHits content)"
    proof (cases "isFallback ?l \<and> find (\<lambda>a. \<not> isFallback a) ?s \<noteq> None")
      case True
      then obtain g where "find (\<lambda>a. \<not> isFallback a) ?s = Some g" by auto
      then show ?thesis
        using True c finalize_section_promoted [of ?l ?s g hits] by auto
    next
      case False
      then show ?thesis using c finalize_section_kept [of ?l ?s hits] by auto
    qed
    show "\<not> isFallback ?l \<Longrightarrow> secondary content = ?good"
      using c finalize_section_kept [of ?l ?s hits] by simp
  qed
  have one: "\<forall>a \<in> set (secondary content). \<not> isFallback a" using sec by auto
  have two: "\<forall>a \<in> set ?s. isFallback a \<longrightarrow>
               a \<notin> set (secondary content)
               \<and> \<lparr> hit_repo = repo a, summary = Some (description (repo a)) \<rparr>
                   \<in> set (quickHits content)"
  proof (intro ballI impI)
    fix a assume a: "a \<in> set ?s" "isFallback a"
    then have "demoted_hit a \<in> set ?dem" by auto
    then have "demoted_hit a \<in> set (quickHits content)" using qh by blast
    then show "a \<notin> set (secondary content)
               \<and> \<lparr> hit_repo = repo a, summary = Some (description (repo a)) \<rparr>
                   \<in> set (quickHits content)"
      using a(2) one by (auto simp: demoted_hit_def)
  qed
  have three: "\<not> isFallback ?l \<and> ?s = [a1, a2] \<and> isFallback a1 \<noteq> isFallback a2
            \<longrightarrow> length (secondary content) = 1
                \<and> \<lparr> hit_repo = repo (if isFallback a1 then a1 else a2),
                      summary = Some (description (repo (if isFallback a1 then a1 else a2))) \<rparr>
                    \<in> set (quickHits content)"
  proof (intro impI)
    assume h: "\<not> isFallback ?l \<and> ?s = [a1, a2] \<and> isFallback a1 \<noteq> isFallback a2"
    then have l1: "length (secondary content) = 1" using len by auto
    have "(if isFallback a1 then a1 else a2) \<in> set ?s"
      and "isFallback (if isFallback a1 then a1 else a2)"
      using h by auto
    then show "length (secondary content) = 1
                \<and> \<lparr> hit_repo = repo (if isFallback a1 then a1 else a2),
                      summary = Some (description (repo (if isFallback a1 then a1 else a2))) \<rparr>
                    \<in> set (quickHits content)"
      using two l1 by blast
  qed
  show ?thesis using one two three by blast
qed


subsection \<open>Scenarios of the generation tests\<close>

text \<open>The tests' \<open>goodArticle(headline)\<close> and \<open>makeRepo(name)\<close>.\<close>

definition goodArticle :: "string \<Rightarrow> string" where
  "goodArticle h = join_lines [''HEADLINE: '' @ h, ''SUBHEADLINE: A subtitle'',
     ''BODY: Article body text here.'', ''BUILDERS_TAKE: Worth checking out.'']"

definition org_repo :: "string \<Rightarrow> repo_info" where
  "org_repo n = \<lparr> name = ''org/'' @ n, shortName = n, description = ''Description of '' @ n,
                  stars = 1000, languageName = ''JavaScript'' \<rparr>"

definition good_article :: "repo_info \<Rightarrow> string \<Rightarrow> article" where
  "good_article r h =
     \<lparr> headline = h, subheadline = ''A subtitle'', body = ''Article body text here.'',
       buildersTake = ''Worth checking out.'', isFallback = False, repo = r,
       xSentiment = None \<rparr>"

definition fallback_article :: "repo_info \<Rightarrow> article" where
  "fallback_article r =
     \<lparr> headline = take 80 (shortName r @ '': '' @ description r), subheadline = description r,
       body = description r, buildersTake = [], isFallback = True, repo = r,
       xSentiment = None \<rparr>"

lemma secondary_text_fields:
  "parseHeadline (goodArticle ''Good Secondary'') = Some ''Good Secondary''"
  "parseSubheadline (goodArticle ''Good Secondary'') = Some ''A subtitle''"
  "parseBody (goodArticle ''Good Secondary'') = Some ''Article body text here.''"
  "parseBuildersTake (goodArticle ''Good Secondary'') = Some ''Worth checking out.''"
  by code_simp+

lemma badResponse_subheadline: "parseSubheadline badResponse = None"
  by code_simp

lemma generate_bad:
  "generateArticleWithRetry (\<lambda>i. Inr badResponse) r = (fallback_article r, 2)"
  by (simp add: generateArticleWithRetry_def Let_def parseArticle_def badResponse_fields
      badResponse_subheadline truthy_def or_else_def with_repo_def parsed.defs
      fallback_article_def)

lemma generate_good_secondary:
  "generateArticleWithRetry (\<lambda>i. Inr (goodArticle ''Good Secondary'')) r
     = (good_article r ''Good Secondary'', 1)"
  by (simp add: generateArticleWithRetry_def Let_def parseArticle_def secondary_text_fields
      truthy_def or_else_def with_repo_def parsed.defs good_article_def)

text \<open>A fallback lead with one good and one failed secondary, and no quick-hits.\<close>

definition failed_lead_section :: section_data where
  "failed_lead_section =
     \<lparr> lead = Some (org_repo ''bad-lead''),
       secondary = [org_repo ''good-sec'', org_repo ''bad-sec''], quickHits = [] \<rparr>"

definition failed_lead_chats :: "nat \<Rightarrow> nat \<Rightarrow> error + string" where
  "failed_lead_chats slot i =
     (if slot = 1 then Inr (goodArticle ''Good Secondary'') else Inr badResponse)"

definition failed_lead_content :: section_content where
  "failed_lead_content =
     \<lparr> lead = Some (good_article (org_repo ''good-sec'') ''Good Secondary''),
       secondary = [],
       quickHits =
         [\<lparr> hit_repo = org_repo ''bad-sec'',
            summary = Some (description (org_repo ''bad-sec'')) \<rparr>,
          \<lparr> hit_repo = org_repo ''bad-lead'',
            summary = Some (description (org_repo ''bad-lead'')) \<rparr>],
       isEmpty = False, pulseItems = None \<rparr>"

lemma failed_lead_chats_slots:
  "failed_lead_chats 0 = (\<lambda>i. Inr badResponse)"
  "failed_lead_chats (Suc 0) = (\<lambda>i. Inr (goodArticle ''Good Secondary''))"
  "failed_lead_chats (Suc (Suc 0)) = (\<lambda>i. Inr badResponse)"
  by (auto simp: failed_lead_chats_def)

lemma failed_lead_generated:
  "generated_lead failed_lead_chats (org_repo ''bad-lead'') = fallback_article (org_repo ''bad-lead'')"
  "generated_secondary failed_lead_chats (secondary failed_lead_section)
     = [good_article (org_repo ''good-sec'') ''Good Secondary'',
        fallback_article (org_repo ''bad-sec'')]"
  by (simp_all add: generated_lead_def generated_secondary_def failed_lead_chats_slots
      failed_lead_section_def generate_bad generate_good_secondary)

lemma failed_lead_run:
  "generateSectionContent failed_lead_section failed_lead_chats (Inl BackendError)
     = Inr failed_lead_content"
proof -
  have "generateSectionContent failed_lead_section failed_lead_chats (Inl BackendError)
          = Inr (finalize_section (generated_lead failed_lead_chats (org_repo ''bad-lead''))
                   (generated_secondary failed_lead_chats (secondary failed_lead_section)) [])"
    by (simp add: generateSectionContent_def failed_lead_section_def Let_def)
  then show ?thesis
    unfolding failed_lead_generated
    by (simp add: finalize_section_def fallback_article_def good_article_def demoted_hit_def
        failed_lead_content_def)
qed

theorem fallback_lead_promotion_witness:
  "generateSectionContent failed_lead_section failed_lead_chats (Inl BackendError)
     = Inr failed_lead_content
   \<and> lead failed_lead_section = Some (org_repo ''bad-lead'')
   \<and> isFallback (generated_lead failed_lead_chats (org_repo ''bad-lead''))
   \<and> find (\<lambda>a. \<not> isFallback a)
        (generated_secondary failed_lead_chats (secondary failed_lead_section))
       = Some (good_article (org_repo ''good-sec'') ''Good Secondary'')
   \<and> map_option headline (lead failed_lead_content) = Some ''Good Secondary''
   \<and> \<lparr> hit_repo = org_repo ''bad-lead'', summary = Some (description (org_repo ''bad-lead'')) \<rparr>
       \<in> set (quickHits failed_lead_content)"
proof -
  have l: "lead failed_lead_section = Some (org_repo ''bad-lead'')"
    by (simp add: failed_lead_section_def)
  have f: "isFallback (generated_lead failed_lead_chats (org_repo ''bad-lead''))"
    by (simp add: failed_lead_generated fallback_article_def)
  have g: "find (\<lambda>a. \<not> isFallback a)
             (generated_secondary failed_lead_chats (secondary failed_lead_section))
           = Some (good_article (org_repo ''good-sec'') ''Good Secondary'')"
    by (simp add: failed_lead_generated good_article_def)
  have h: "headline (good_article (org_repo ''good-sec'') ''Good Secondary'')
             = ''Good Secondary''"
    by (simp add: good_article_def)
  show ?thesis
    using failed_lead_run l f g h fallback_lead_promotion [OF failed_lead_run l f]
    by simp
qed

text \<open>
  C5 (as stated, refuted): in that run the two generated secondaries are one good and one
  fallback article, but the good one is promoted to lead and the returned secondary list
  is empty, not of length 1.
\<close>

theorem promoted_secondary_leaves_none:
  "generateSectionContent failed_lead_section failed_lead_chats (Inl BackendError)
     = Inr failed_lead_content
   \<and> generated_secondary failed_lead_chats (secondary failed_lead_section)
       = [good_article (org_repo ''good-sec'') ''Good Secondary'',
          fallback_article (org_repo ''bad-sec'')]
   \<and> \<not> isFallback (good_article (org_repo ''good-sec'') ''Good Secondary'')
   \<and> isFallback (fallback_article (org_repo ''bad-sec''))
   \<and> length (secondary failed_lead_content) \<noteq> 1"
  using failed_lead_run failed_lead_generated(2)
  by (simp add: good_article_def fallback_article_def failed_lead_content_def)


text \<open>A good lead with one good and one failed secondary, and one quick-hit.\<close>

definition demotion_section :: section_data where
  "demotion_section =
     \<lparr> lead = Some (org_repo ''lead''),
       secondary = [org_repo ''good-sec'', org_repo ''bad-sec''],
       quickHits = [org_repo ''qh1''] \<rparr>"

definition demotion_chats :: "nat \<Rightarrow> nat \<Rightarrow> error + string" where
  "demotion_chats slot i =
     (if slot = 0 then Inr (goodArticle ''Lead Story'')
      else if slot = 1 then Inr (goodArticle ''Good Secondary'') else Inr badResponse)"

definition demotion_content :: section_content where
  "demotion_content =
     \<lparr> lead = Some (good_article (org_repo ''lead'') ''Lead Story''),
       secondary = [good_article (org_repo ''good-sec'') ''Good Secondary''],
       quickHits =
         [\<lparr> hit_repo = org_repo ''qh1'', summary = Some ''Quick summary A'' \<rparr>,
          \<lparr> hit_repo = org_repo ''bad-sec'',
            summary = Some (description (org_repo ''bad-sec'')) \<rparr>],
       isEmpty = False, pulseItems = None \<rparr>"

lemma lead_text_fields:
  "parseHeadline (goodArticle ''Lead Story'') = Some ''Lead Story''"
  "parseSubheadline (goodArticle ''Lead Story'') = Some ''A subtitle''"
  "parseBody (goodArticle ''Lead Story'') = Some ''Article body text here.''"
  "parseBuildersTake (goodArticle ''Lead Story'') = Some ''Worth checking out.''"
  by code_simp+

lemma generate_good_lead:
  "generateArticleWithRetry (\<lambda>i. Inr (goodArticle ''Lead Story'')) r
     = (good_article r ''Lead Story'', 1)"
  by (simp add: generateArticleWithRetry_def Let_def parseArticle_def lead_text_fields
      truthy_def or_else_def with_repo_def parsed.defs good_article_def)

lemma demotion_chats_slots:
  "demotion_chats 0 = (\<lambda>i. Inr (goodArticle ''Lead Story''))"
  "demotion_chats (Suc 0) = (\<lambda>i. Inr (goodArticle ''Good Secondary''))"
  "demotion_chats (Suc (Suc 0)) = (\<lambda>i. Inr badResponse)"
  by (auto simp: demotion_chats_def)

lemma demotion_generated:
  "generated_lead demotion_chats (org_repo ''lead'') = good_article (org_repo ''lead'') ''Lead Story''"
  "generated_secondary demotion_chats (secondary demotion_section)
     = [good_article (org_repo ''good-sec'') ''Good Secondary'',
        fallback_article (org_repo ''bad-sec'')]"
  by (simp_all add: generated_lead_def generated_secondary_def demotion_chats_slots
      demotion_section_def generate_bad generate_good_secondary generate_good_lead)

lemma quick_summary_parsed:
  "parseQuickHits ''1. Quick summary A'' [org_repo ''qh1'']
     = [\<lparr> hit_repo = org_repo ''qh1'', summary = Some ''Quick summary A'' \<rparr>]"
  by code_simp

lemma demotion_run:
  "generateSectionContent demotion_section demotion_chats (Inr ''1. Quick summary A'')
     = Inr demotion_content"
proof -
  have "generateSectionContent demotion_section demotion_chats (Inr ''1. Quick summary A'')
          = Inr (finalize_section (generated_lead demotion_chats (org_repo ''lead''))
                   (generated_secondary demotion_chats (secondary demotion_section))
                   (parseQuickHits ''1. Quick summary A'' [org_repo ''qh1'']))"
    by (simp add: generateSectionContent_def demotion_section_def Let_def)
  then show ?thesis
    unfolding demotion_generated quick_summary_parsed
    by (simp add: finalize_section_def fallback_article_def good_article_def demoted_hit_def
        demotion_content_def)
qed

theorem fallback_secondaries_demoted_witness:
  "generateSectionContent demotion_section demotion_chats (Inr ''1. Quick summary A'')
     = Inr demotion_content
   \<and> lead demotion_section = Some (org_repo ''lead'')
   \<and> \<not> isFallback (generated_lead demotion_chats (org_repo ''lead''))
   \<and> generated_secondary demotion_chats (secondary demotion_section)
       = [good_article (org_repo ''good-sec'') ''Good Secondary'',
          fallback_article (org_repo ''bad-sec'')]
   \<and> isFallback (fallback_article (org_repo ''bad-sec''))
   \<and> length (secondary demotion_content) = 1
   \<and> \<lparr> hit_repo = org_repo ''bad-sec'', summary = Some (description (org_repo ''bad-sec'')) \<rparr>
       \<in> set (quickHits demotion_content)"
proof -
  let ?g = "good_article (org_repo ''good-sec'') ''Good Secondary''"
  let ?b = "fallback_article (org_repo ''bad-sec'')"
  have l: "lead demotion_section = Some (org_repo ''lead'')"
    by (simp add: demotion_section_def)
  have f: "\<not> isFallback (generated_lead demotion_chats (org_repo ''lead''))"
    by (simp add: demotion_generated good_article_def)
  have g: "\<not> isFallback ?g" "isFallback ?b" "repo ?b = org_repo ''bad-sec''"
    by (simp_all add: good_article_def fallback_article_def)
  show ?thesis
    using demotion_run l f g demotion_generated(2)
      fallback_secondaries_demoted [OF demotion_run l, of ?g ?b]
    by simp
qed

subsection \<open>The \<open>isEmpty\<close> flag\<close>

lemma finalize_section_nonempty:
  "\<not> isEmpty (finalize_section l ss hits) \<and> lead (finalize_section l ss hits) \<noteq> None"
  by (auto simp: finalize_section_def split: prod.splits list.splits bool.splits)

lemma generateSectionContent_isEmpty:
  assumes "generateSectionContent sectionData chats raw = Inr content"
  shows "isEmpty content \<longleftrightarrow> lead content = None"
proof (cases "lead sectionData")
  case None
  then show ?thesis using assms by (auto simp: generateSectionContent_def)
next
  case (Some leadRepo)
  then obtain hits where "content = finalize_section (generated_lead chats leadRepo)
      (generated_secondary chats (secondary sectionData)) hits"
    using generateSectionContent_Some [OF assms] by blast
  then show ?thesis using finalize_section_nonempty by simp
qed

lemma generate_sections_isEmpty:
  assumes "generate_sections fetched be ids = Inr result"
      and "(sid, s) \<in> set result"
  shows "sid \<noteq> ''xPulse'' \<and> (isEmpty s \<longleftrightarrow> lead s = None)"
  using assms
proof (induction ids arbitrary: result)
  case Nil
  then show ?case by simp
next
  case (Cons i ids)
  show ?case
  proof (cases "case map_of SECTIONS i of Some config \<Rightarrow> isXPulse config | None \<Rightarrow> False")
    case True
    then show ?thesis using Cons by simp
  next
    case False
    then have nx: "i \<noteq> ''xPulse''" by (auto simp: SECTIONS_def)
    obtain content rest where
      c: "(case fetched i of
             None \<Rightarrow> Inr \<lparr> lead = None, secondary = [], quickHits = [], isEmpty = True,
                            pulseItems = None \<rparr>
           | Some sectionData \<Rightarrow>
               generateSectionContent sectionData (articleChats be i) (quickHitChat be i))
          = Inr content"
      and r: "generate_sections fetched be ids = Inr rest"
      and res: "result = (i, content) # rest"
      using Cons.prems(1) False by (auto split: sum.splits)
    have ce: "isEmpty content \<longleftrightarrow> lead content = None"
    proof (cases "fetched i")
      case None
      then show ?thesis using c by auto
    next
      case (Some sectionData)
      then show ?thesis using c generateSectionContent_isEmpty by simp
    qed
    show ?thesis
    proof (cases "(sid, s) = (i, content)")
      case True
      then show ?thesis using nx ce by simp
    next
      case False
      then have "(sid, s) \<in> set rest" using Cons.prems(2) res by auto
      then show ?thesis using Cons.IH [OF r] by simp
    qed
  qed
qed

lemma annotate_isEmpty:
  "isEmpty (annotate be s) = isEmpty s \<and> (lead (annotate be s) = None \<longleftrightarrow> lead s = None)"
  by (simp add: annotate_def)

text \<open>
  C7 (amended): in the output of a run, every section other than X Pulse has \<open>isEmpty\<close>
  true exactly when its lead is null; the X Pulse section never has a lead, and its
  \<open>isEmpty\<close> is true exactly when it has no pulse items.
\<close>

theorem isEmpty_iff_no_lead_except_xPulse:
  assumes "generateAllContent fetched be = Inr out"
      and "(sid, s) \<in> set (sections out)"
  shows "(sid \<noteq> ''xPulse'' \<longrightarrow> (isEmpty s \<longleftrightarrow> lead s = None))
         \<and> (sid = ''xPulse'' \<longrightarrow> lead s = None \<and> (isEmpty s \<longleftrightarrow> pulseItems s = Some []))"
proof -
  obtain result where r: "generate_sections fetched be SECTION_ORDER = Inr result"
    and o: "sections out = map (\<lambda>(sid, section). (sid, annotate be section)) result
              @ [(''xPulse'', \<lparr> lead = None, secondary = [], quickHits = [],
                                isEmpty = (length (fetchXPulse be) = 0),
                                pulseItems = Some (fetchXPulse be) \<rparr>)]"
    using assms(1) by (auto simp: generateAllContent_def Let_def split: sum.splits)
  show ?thesis
  proof (cases "(sid, s) \<in> set (map (\<lambda>(sid, section). (sid, annotate be section)) result)")
    case True
    then obtain s0 where "(sid, s0) \<in> set result" and "s = annotate be s0" by auto
    then show ?thesis
      using generate_sections_isEmpty [OF r] annotate_isEmpty [of be s0] by auto
  next
    case False
    then have "sid = ''xPulse''"
      and "s = \<lparr> lead = None, secondary = [], quickHits = [],
                 isEmpty = (length (fetchXPulse be) = 0),
                 pulseItems = Some (fetchXPulse be) \<rparr>"
      using assms(2) o by auto
    then show ?thesis by simp
  qed
qed


text \<open>A run whose only fetched section is a front page with a lead and nothing else.\<close>

definition front_only :: "string \<Rightarrow> section_data option" where
  "front_only sid =
     (if sid = ''frontPage''
      then Some \<lparr> lead = Some (org_repo ''alpha''), secondary = [], quickHits = [] \<rparr>
      else None)"

definition quiet :: x_sentiment where
  "quiet = \<lparr> sentiment = ''quiet'', blurb = [], postCount = 0, topPost = None,
             failed = False \<rparr>"

definition pulse_backend :: "pulse_item list \<Rightarrow> backend" where
  "pulse_backend items =
     \<lparr> articleChats = (\<lambda>sid slot i. Inr (goodArticle ''Lead Story'')),
       quickHitChat = (\<lambda>sid. Inl BackendError),
       fetchXSentimentForRepo = (\<lambda>r. quiet),
       fetchXPulse = items,
       mastheadQuote = ''Talk is cheap. Show me the code.'' \<rparr>"

definition trending :: pulse_item where
  "trending = \<lparr> topic = ''Rust 2.0'', pulse_blurb = ''People are talking.'',
                pulse_sentiment = ''buzzing'', handles = ''@rustlang'' \<rparr>"

definition empty_content :: section_content where
  "empty_content =
     \<lparr> lead = None, secondary = [], quickHits = [], isEmpty = True, pulseItems = None \<rparr>"

definition front_content :: section_content where
  "front_content =
     \<lparr> lead = Some ((good_article (org_repo ''alpha'') ''Lead Story'')
                       \<lparr> xSentiment := Some quiet \<rparr>),
       secondary = [], quickHits = [], isEmpty = False, pulseItems = None \<rparr>"

definition pulse_section :: "pulse_item list \<Rightarrow> section_content" where
  "pulse_section items =
     \<lparr> lead = None, secondary = [], quickHits = [], isEmpty = (length items = 0),
       pulseItems = Some items \<rparr>"

definition edition_with :: "pulse_item list \<Rightarrow> edition" where
  "edition_with items =
     \<lparr> sections =
         [(''frontPage'', front_content), (''ai'', empty_content),
          (''robotics'', empty_content), (''cyber'', empty_content),
          (''systems'', empty_content), (''diy'', empty_content),
          (''xPulse'', pulse_section items)],
       tagline = ''Talk is cheap. Show me the code.'' \<rparr>"

lemma front_only_sections:
  "generate_sections front_only (pulse_backend items) SECTION_ORDER
     = Inr [(''frontPage'', finalize_section (good_article (org_repo ''alpha'') ''Lead Story'') [] []),
            (''ai'', empty_content), (''robotics'', empty_content), (''cyber'', empty_content),
            (''systems'', empty_content), (''diy'', empty_content)]"
  by (simp add: SECTION_ORDER_def SECTIONS_def front_only_def pulse_backend_def
      generateSectionContent_def generated_lead_def generated_secondary_def
      generate_good_lead empty_content_def Let_def)

lemma front_only_run:
  "generateAllContent front_only (pulse_backend items) = Inr (edition_with items)"
  unfolding generateAllContent_def front_only_sections
  by (simp add: Let_def annotate_def finalize_section_def empty_content_def
      edition_with_def front_content_def pulse_section_def good_article_def
      pulse_backend_def)

theorem isEmpty_iff_no_lead_except_xPulse_witness:
  "generateAllContent front_only (pulse_backend []) = Inr (edition_with [])
   \<and> (''frontPage'', front_content) \<in> set (sections (edition_with []))
   \<and> \<not> isEmpty front_content \<and> lead front_content \<noteq> None
   \<and> (''ai'', empty_content) \<in> set (sections (edition_with []))
   \<and> isEmpty empty_content \<and> lead empty_content = None
   \<and> (''xPulse'', pulse_section []) \<in> set (sections (edition_with []))
   \<and> isEmpty (pulse_section []) \<and> lead (pulse_section []) = None"
proof -
  have m: "(''frontPage'', front_content) \<in> set (sections (edition_with []))"
    "(''ai'', empty_content) \<in> set (sections (edition_with []))"
    "(''xPulse'', pulse_section []) \<in> set (sections (edition_with []))"
    by (simp_all add: edition_with_def)
  have e: "\<not> isEmpty front_content" "isEmpty empty_content" "isEmpty (pulse_section [])"
    by (simp_all add: front_content_def empty_content_def pulse_section_def)
  show ?thesis
    using front_only_run [of "[]"] m e
      isEmpty_iff_no_lead_except_xPulse [OF front_only_run m(1)]
      isEmpty_iff_no_lead_except_xPulse [OF front_only_run m(2)]
      isEmpty_iff_no_lead_except_xPulse [OF front_only_run m(3)]
    by simp
qed

text \<open>
  C7 (as stated, refuted): with one pulse item the X Pulse section of the output has a
  null lead and \<open>isEmpty\<close> false.
\<close>

theorem xPulse_has_items_without_lead:
  "generateAllContent front_only (pulse_backend [trending]) = Inr (edition_with [trending])
   \<and> (''xPulse'', pulse_section [trending]) \<in> set (sections (edition_with [trending]))
   \<and> lead (pulse_section [trending]) = None
   \<and> \<not> isEmpty (pulse_section [trending])"
  using front_only_run [of "[trending]"]
  by (simp add: edition_with_def pulse_section_def)

end
